theory Spec2Isabelle
  imports Main "HOL-Library.Word" "HOL-Library.AList" "HOL-Library.Multiset"
begin

section \<open>SmartAPI streaming clients: data model\<close>

text \<open>
  The market-data client (class \<open>SmartAPIWebSocket\<close>) and the order-status client
  (class \<open>OrderStatusWebSocket\<close>) are embedded as state-passing functions.
  TypeScript numeric enums are plain numbers at run time: the decoder compares the
  bytes it reads with \<open>FeedMode\<close> and \<open>ExchangeType\<close> members, so both are integers
  here, with the members as constants.
\<close>

type_synonym FeedMode = int
type_synonym ExchangeType = int

definition LTP :: FeedMode where [simp]: "LTP = 1"
definition QUOTE :: FeedMode where [simp]: "QUOTE = 2"
definition SNAP_QUOTE :: FeedMode where [simp]: "SNAP_QUOTE = 3"
definition DEPTH_20 :: FeedMode where [simp]: "DEPTH_20 = 4"

definition NSE_CM :: ExchangeType where [simp]: "NSE_CM = 1"
definition NSE_FO :: ExchangeType where [simp]: "NSE_FO = 2"
definition BSE_CM :: ExchangeType where [simp]: "BSE_CM = 3"
definition BSE_FO :: ExchangeType where [simp]: "BSE_FO = 4"
definition MCX_FO :: ExchangeType where [simp]: "MCX_FO = 5"
definition NCX_FO :: ExchangeType where [simp]: "NCX_FO = 7"
definition CDE_FO :: ExchangeType where [simp]: "CDE_FO = 13"

datatype Action = UNSUBSCRIBE | SUBSCRIBE

datatype ConnectionState = CONNECTING | CONNECTED | DISCONNECTING | DISCONNECTED | ERROR

record SubscriptionData =
  correlationId :: string
  exchangeType :: ExchangeType
  token :: string
  feedMode :: FeedMode

text \<open>A token-list item \<open>{exchangeType, tokens}\<close> is a pair; so is a symbol
  \<open>{exchangeType, token}\<close> of \<open>subscribeMultiple\<close>.\<close>

type_synonym tokenList = "(ExchangeType \<times> string list) list"

record WebSocketRequest =
  correlationID :: string
  action :: Action
  req_mode :: FeedMode
  req_tokenList :: tokenList

subsection \<open>Numbers, buffers and exceptions\<close>

text \<open>
  A JavaScript number is kept in the form the decoder computes it: the conversion of
  an integer read from the buffer, the eight bytes of a little-endian double, or the
  quotient of a number by a divisor. No rounding is modelled.
\<close>

datatype number = Number int | DoubleLE "8 word list" | Quot number int

datatype exn = RangeError | TypeError | SyntaxError

type_synonym buffer = "8 word list"

definition bind_exn :: "exn + 'a \<Rightarrow> ('a \<Rightarrow> exn + 'b) \<Rightarrow> exn + 'b" where
  "bind_exn m f = (case m of Inl e \<Rightarrow> Inl e | Inr v \<Rightarrow> f v)"

definition le_uint :: "8 word list \<Rightarrow> int" where
  "le_uint bs = foldr (\<lambda>b a. uint b + 256 * a) bs 0"

definition to_signed :: "nat \<Rightarrow> int \<Rightarrow> int" where
  "to_signed bits v = (if v < 2 ^ (bits - 1) then v else v - 2 ^ bits)"

text \<open>Every \<open>Buffer\<close> read raises a range error when the bytes it needs are not all
  inside the buffer.\<close>

definition read_bytes :: "buffer \<Rightarrow> nat \<Rightarrow> nat \<Rightarrow> exn + 8 word list" where
  "read_bytes data off n =
     (if off + n \<le> length data then Inr (take n (drop off data)) else Inl RangeError)"

definition readUInt8 :: "buffer \<Rightarrow> nat \<Rightarrow> exn + int" where
  "readUInt8 data off = bind_exn (read_bytes data off 1) (\<lambda>bs. Inr (le_uint bs))"

definition readInt8 :: "buffer \<Rightarrow> nat \<Rightarrow> exn + int" where
  "readInt8 data off = bind_exn (read_bytes data off 1) (\<lambda>bs. Inr (to_signed 8 (le_uint bs)))"

definition readInt16LE :: "buffer \<Rightarrow> nat \<Rightarrow> exn + int" where
  "readInt16LE data off = bind_exn (read_bytes data off 2) (\<lambda>bs. Inr (to_signed 16 (le_uint bs)))"

definition readInt32LE :: "buffer \<Rightarrow> nat \<Rightarrow> exn + int" where
  "readInt32LE data off = bind_exn (read_bytes data off 4) (\<lambda>bs. Inr (to_signed 32 (le_uint bs)))"

definition readBigInt64LE :: "buffer \<Rightarrow> nat \<Rightarrow> exn + int" where
  "readBigInt64LE data off = bind_exn (read_bytes data off 8) (\<lambda>bs. Inr (to_signed 64 (le_uint bs)))"

definition readDoubleLE :: "buffer \<Rightarrow> nat \<Rightarrow> exn + number" where
  "readDoubleLE data off = bind_exn (read_bytes data off 8) (\<lambda>bs. Inr (DoubleLE bs))"

text \<open>\<open>Number(data.readBigInt64LE(off))\<close> and \<open>Number(data.readInt32LE(off))\<close>.\<close>

definition num64 :: "buffer \<Rightarrow> nat \<Rightarrow> exn + number" where
  "num64 data off = bind_exn (readBigInt64LE data off) (\<lambda>v. Inr (Number v))"

definition num32 :: "buffer \<Rightarrow> nat \<Rightarrow> exn + number" where
  "num32 data off = bind_exn (readInt32LE data off) (\<lambda>v. Inr (Number v))"

definition num16 :: "buffer \<Rightarrow> nat \<Rightarrow> exn + number" where
  "num16 data off = bind_exn (readInt16LE data off) (\<lambda>v. Inr (Number v))"

subsection \<open>Decimal rendering of numbers in template strings\<close>

fun digits :: "nat \<Rightarrow> string" where
  "digits n = (if n < 10 then [char_of (48 + n)] else digits (n div 10) @ [char_of (48 + n mod 10)])"

declare digits.simps [simp del]

definition show_int :: "int \<Rightarrow> string" where
  "show_int i = (if i < 0 then CHR ''-'' # digits (nat (- i)) else digits (nat i))"

text \<open>\<open>getSubscriptionKey\<close>: the registry key \<open>`${exchangeType}:${token}`\<close>.\<close>

definition getSubscriptionKey :: "ExchangeType \<Rightarrow> string \<Rightarrow> string" where
  "getSubscriptionKey ex tok = show_int ex @ '':'' @ tok"

section \<open>The binary tick decoder\<close>

record entry =
  quantity :: number
  price :: number
  numOrders :: number

text \<open>The tick is a dynamically built object: a field that was never assigned is
  \<open>None\<close> (\<open>undefined\<close>).\<close>

record tick =
  mode :: int
  exchangeType :: int
  token :: string
  sequenceNumber :: "int option"
  exchangeTimestamp :: "number option"
  lastTradedPrice :: "number option"
  lastTradedQuantity :: "number option"
  averageTradedPrice :: "number option"
  volumeTradedForTheDay :: "number option"
  totalBuyQuantity :: "number option"
  totalSellQuantity :: "number option"
  openPrice :: "number option"
  highPrice :: "number option"
  lowPrice :: "number option"
  closePrice :: "number option"
  lastTradedTimestamp :: "number option"
  openInterest :: "number option"
  openInterestChangePercent :: "number option"
  bestBids :: "entry list option"
  bestAsks :: "entry list option"
  upperCircuitLimit :: "number option"
  lowerCircuitLimit :: "number option"
  fiftyTwoWeekHighPrice :: "number option"
  fiftyTwoWeekLowPrice :: "number option"
  dummyPlaceholder :: "number option"

definition base_tick :: "int \<Rightarrow> int \<Rightarrow> string \<Rightarrow> tick" where
  "base_tick m ex tok =
     \<lparr> mode = m, exchangeType = ex, token = tok, sequenceNumber = None,
       exchangeTimestamp = None, lastTradedPrice = None, lastTradedQuantity = None,
       averageTradedPrice = None, volumeTradedForTheDay = None, totalBuyQuantity = None,
       totalSellQuantity = None, openPrice = None, highPrice = None, lowPrice = None,
       closePrice = None, lastTradedTimestamp = None, openInterest = None,
       openInterestChangePercent = None, bestBids = None, bestAsks = None,
       upperCircuitLimit = None, lowerCircuitLimit = None, fiftyTwoWeekHighPrice = None,
       fiftyTwoWeekLowPrice = None, dummyPlaceholder = None \<rparr>"

text \<open>The token loop: up to 25 bytes from offset 2, stopping at the first zero byte.
  The reads are not guarded by a length check.\<close>

fun read_token :: "buffer \<Rightarrow> nat \<Rightarrow> nat \<Rightarrow> string \<Rightarrow> exn + string" where
  "read_token data 0 i acc = Inr acc"
| "read_token data (Suc n) i acc =
     bind_exn (readUInt8 data (2 + i))
       (\<lambda>charCode. if charCode = 0 then Inr acc
                    else read_token data n (Suc i) (acc @ [char_of charCode]))"

text \<open>One guarded assignment \<open>if (cond) tick.f = read\<close>, and a sequence of statements
  that stops at the first exception.\<close>

definition assign :: "bool \<Rightarrow> (exn + 'a) \<Rightarrow> ('a \<Rightarrow> tick \<Rightarrow> tick) \<Rightarrow> tick \<Rightarrow> exn + tick" where
  "assign cond rd upd t = (if cond then bind_exn rd (\<lambda>v. Inr (upd v t)) else Inr t)"

fun statements :: "(tick \<Rightarrow> exn + tick) list \<Rightarrow> tick \<Rightarrow> exn + tick" where
  "statements [] t = Inr t"
| "statements (s # ss) t = bind_exn (s t) (statements ss)"

text \<open>The fields shared by the QUOTE and SNAP_QUOTE branches (the source repeats the
  same ten guarded reads in both).\<close>

definition quote_fields :: "buffer \<Rightarrow> (tick \<Rightarrow> exn + tick) list" where
  "quote_fields data =
     [assign (51 \<le> length data) (num32 data 43) (\<lambda>v t. t\<lparr>lastTradedPrice := Some v\<rparr>),
      assign (59 \<le> length data) (num64 data 51) (\<lambda>v t. t\<lparr>lastTradedQuantity := Some v\<rparr>),
      assign (67 \<le> length data) (num64 data 59) (\<lambda>v t. t\<lparr>averageTradedPrice := Some v\<rparr>),
      assign (75 \<le> length data) (num64 data 67) (\<lambda>v t. t\<lparr>volumeTradedForTheDay := Some v\<rparr>),
      assign (83 \<le> length data) (readDoubleLE data 75) (\<lambda>v t. t\<lparr>totalBuyQuantity := Some v\<rparr>),
      assign (91 \<le> length data) (readDoubleLE data 83) (\<lambda>v t. t\<lparr>totalSellQuantity := Some v\<rparr>),
      assign (99 \<le> length data) (num64 data 91) (\<lambda>v t. t\<lparr>openPrice := Some v\<rparr>),
      assign (107 \<le> length data) (num64 data 99) (\<lambda>v t. t\<lparr>highPrice := Some v\<rparr>),
      assign (115 \<le> length data) (num64 data 107) (\<lambda>v t. t\<lparr>lowPrice := Some v\<rparr>),
      assign (123 \<le> length data) (num64 data 115) (\<lambda>v t. t\<lparr>closePrice := Some v\<rparr>)]"

text \<open>Best-five data: ten packets of 20 bytes from offset 147; a packet whose flag is
  1 is pushed on the bids, any other on the asks.\<close>

definition best5_packet :: "buffer \<Rightarrow> nat \<Rightarrow> exn + (bool \<times> entry)" where
  "best5_packet data i =
     (let offset = 147 + i * 20 in
      bind_exn (readInt16LE data offset) (\<lambda>flag.
      bind_exn (num64 data (offset + 2)) (\<lambda>q.
      bind_exn (num64 data (offset + 10)) (\<lambda>p.
      bind_exn (num16 data (offset + 18)) (\<lambda>n.
        Inr (flag = 1, \<lparr>quantity = q, price = p, numOrders = n\<rparr>))))))"

fun best5_loop :: "buffer \<Rightarrow> nat list \<Rightarrow> entry list \<times> entry list \<Rightarrow> exn + (entry list \<times> entry list)" where
  "best5_loop data [] acc = Inr acc"
| "best5_loop data (i # is) (bids, asks) =
     bind_exn (best5_packet data i)
       (\<lambda>(isBuy, e). best5_loop data is (if isBuy then (bids @ [e], asks) else (bids, asks @ [e])))"

definition snap_quote_fields :: "buffer \<Rightarrow> (tick \<Rightarrow> exn + tick) list" where
  "snap_quote_fields data =
     quote_fields data @
     [assign (131 \<le> length data) (num64 data 123) (\<lambda>v t. t\<lparr>lastTradedTimestamp := Some v\<rparr>),
      assign (139 \<le> length data) (num64 data 131) (\<lambda>v t. t\<lparr>openInterest := Some v\<rparr>),
      assign (147 \<le> length data) (readDoubleLE data 139)
        (\<lambda>v t. t\<lparr>openInterestChangePercent := Some v\<rparr>),
      assign (347 \<le> length data) (best5_loop data [0..<10] ([], []))
        (\<lambda>(bids, asks) t. t\<lparr>bestBids := Some bids, bestAsks := Some asks\<rparr>),
      assign (355 \<le> length data) (num64 data 347) (\<lambda>v t. t\<lparr>upperCircuitLimit := Some v\<rparr>),
      assign (363 \<le> length data) (num64 data 355) (\<lambda>v t. t\<lparr>lowerCircuitLimit := Some v\<rparr>),
      assign (371 \<le> length data) (num64 data 363) (\<lambda>v t. t\<lparr>fiftyTwoWeekHighPrice := Some v\<rparr>),
      assign (379 \<le> length data) (num64 data 371) (\<lambda>v t. t\<lparr>fiftyTwoWeekLowPrice := Some v\<rparr>)]"

text \<open>Depth-20 data: twenty 10-byte packets per side, bids from offset 43 and asks from
  offset 243. The whole block sits under one guard on the exchange type and the length.\<close>

definition depth20_packet :: "buffer \<Rightarrow> nat \<Rightarrow> exn + entry" where
  "depth20_packet data offset =
     bind_exn (num32 data offset) (\<lambda>q.
     bind_exn (num32 data (offset + 4)) (\<lambda>p.
     bind_exn (num16 data (offset + 8)) (\<lambda>n.
       Inr \<lparr>quantity = q, price = p, numOrders = n\<rparr>)))"

fun depth20_loop :: "buffer \<Rightarrow> nat \<Rightarrow> nat list \<Rightarrow> entry list \<Rightarrow> exn + entry list" where
  "depth20_loop data base [] acc = Inr acc"
| "depth20_loop data base (i # is) acc =
     bind_exn (depth20_packet data (base + i * 10)) (\<lambda>e. depth20_loop data base is (acc @ [e]))"

definition depth20_fields :: "buffer \<Rightarrow> int \<Rightarrow> (tick \<Rightarrow> exn + tick) list" where
  "depth20_fields data ex =
     (if ex = NSE_CM \<and> 443 \<le> length data then
        [assign (35 \<le> length data) (num64 data 27) (\<lambda>v t. t\<lparr>exchangeTimestamp := Some v\<rparr>),
         assign (43 \<le> length data) (num64 data 35) (\<lambda>v t. t\<lparr>dummyPlaceholder := Some v\<rparr>),
         assign True (depth20_loop data 43 [0..<20] []) (\<lambda>bids t. t\<lparr>bestBids := Some bids\<rparr>),
         assign True (depth20_loop data 243 [0..<20] []) (\<lambda>asks t. t\<lparr>bestAsks := Some asks\<rparr>)]
      else [])"

definition mode_fields :: "buffer \<Rightarrow> int \<Rightarrow> int \<Rightarrow> (tick \<Rightarrow> exn + tick) list" where
  "mode_fields data m ex =
     (if m = LTP then
        [assign (51 \<le> length data) (num32 data 43) (\<lambda>v t. t\<lparr>lastTradedPrice := Some v\<rparr>)]
      else if m = QUOTE then quote_fields data
      else if m = SNAP_QUOTE then snap_quote_fields data
      else if m = DEPTH_20 then depth20_fields data ex
      else [])"

text \<open>Price normalisation. The whole block runs only when \<open>lastTradedPrice\<close> was
  assigned.\<close>

definition scale_entries :: "int \<Rightarrow> entry list \<Rightarrow> entry list" where
  "scale_entries divisor es = map (\<lambda>e. e\<lparr>price := Quot (price e) divisor\<rparr>) es"

definition normalize :: "tick \<Rightarrow> tick" where
  "normalize t =
     (case lastTradedPrice t of
        None \<Rightarrow> t
      | Some ltp \<Rightarrow>
          (let divisor = (if exchangeType t = CDE_FO then 10000000 else 100);
               sc = map_option (\<lambda>p. Quot p divisor)
           in t\<lparr> lastTradedPrice := Some (Quot ltp divisor),
                 openPrice := sc (openPrice t),
                 highPrice := sc (highPrice t),
                 lowPrice := sc (lowPrice t),
                 closePrice := sc (closePrice t),
                 upperCircuitLimit := sc (upperCircuitLimit t),
                 lowerCircuitLimit := sc (lowerCircuitLimit t),
                 fiftyTwoWeekHighPrice := sc (fiftyTwoWeekHighPrice t),
                 fiftyTwoWeekLowPrice := sc (fiftyTwoWeekLowPrice t),
                 bestBids := map_option (scale_entries divisor) (bestBids t),
                 bestAsks := map_option (scale_entries divisor) (bestAsks t) \<rparr>))"

text \<open>The extraction before normalisation, and the decoded tick: everything
  \<open>parseBinaryMessage\<close> computes before it emits.\<close>

definition extract_tick :: "buffer \<Rightarrow> exn + tick" where
  "extract_tick data =
     bind_exn (readInt8 data 0) (\<lambda>m.
     bind_exn (readInt8 data 1) (\<lambda>ex.
     bind_exn (read_token data 25 0 []) (\<lambda>tok.
       statements
         ([assign (35 \<le> length data) (readBigInt64LE data 27) (\<lambda>v t. t\<lparr>sequenceNumber := Some v\<rparr>),
           assign (43 \<le> length data) (num64 data 35) (\<lambda>v t. t\<lparr>exchangeTimestamp := Some v\<rparr>)]
          @ mode_fields data m ex)
         (base_tick m ex tok))))"

definition decode_tick :: "buffer \<Rightarrow> exn + tick" where
  "decode_tick data = bind_exn (extract_tick data) (\<lambda>t. Inr (normalize t))"

subsection \<open>The values on the wire\<close>

text \<open>The signed little-endian integers that stand at an offset of a buffer, and the
  depth-20 packet number \<open>i\<close> of the block that starts at \<open>base\<close>, as it stands on the
  wire.\<close>

definition i16 :: "buffer \<Rightarrow> nat \<Rightarrow> int" where
  "i16 data off = to_signed 16 (le_uint (take 2 (drop off data)))"

definition i32 :: "buffer \<Rightarrow> nat \<Rightarrow> int" where
  "i32 data off = to_signed 32 (le_uint (take 4 (drop off data)))"

definition i64 :: "buffer \<Rightarrow> nat \<Rightarrow> int" where
  "i64 data off = to_signed 64 (le_uint (take 8 (drop off data)))"

definition depth20_entry :: "buffer \<Rightarrow> nat \<Rightarrow> nat \<Rightarrow> entry" where
  "depth20_entry data base i =
     \<lparr> quantity = Number (i32 data (base + i * 10)),
       price = Number (i32 data (base + i * 10 + 4)),
       numOrders = Number (i16 data (base + i * 10 + 8)) \<rparr>"

text \<open>A DEPTH_20 frame of 443 bytes for token 3045: sequence number 7, and forty
  packets that each carry quantity 5, price 12345 and 2 orders.\<close>

definition depth20_frame :: "ExchangeType \<Rightarrow> buffer" where
  "depth20_frame ex =
     [4, word_of_int ex, 0x33, 0x30, 0x34, 0x35] @ replicate 21 0 @
     [7, 0, 0, 0, 0, 0, 0, 0] @ replicate 8 0 @
     concat (replicate 40 [5, 0, 0, 0, 0x39, 0x30, 0, 0, 2, 0])"

text \<open>An LTP frame of 51 bytes for token 3045 of NSE_CM: sequence number 7, last traded
  price 45000 on the wire.\<close>

definition ltp_frame :: buffer where
  "ltp_frame =
     [1, 1, 0x33, 0x30, 0x34, 0x35] @ replicate 21 0 @
     [7, 0, 0, 0, 0, 0, 0, 0] @ replicate 8 0 @ [0xC8, 0xAF, 0, 0, 0, 0, 0, 0]"

definition ltp_tick :: tick where
  "ltp_tick =
     (base_tick LTP NSE_CM ''3045'')
       \<lparr> sequenceNumber := Some 7, exchangeTimestamp := Some (Number 0),
         lastTradedPrice := Some (Quot (Number 45000) 100) \<rparr>"

subsection \<open>What a token list carries\<close>

text \<open>The (exchange, token) pairs of a token list, as a multiset, and their number.\<close>

definition entries_of :: "tokenList \<Rightarrow> (ExchangeType \<times> string) multiset" where
  "entries_of tokens = mset (concat (map (\<lambda>(ex, toks). map (Pair ex) toks) tokens))"

definition count_tokens :: "tokenList \<Rightarrow> nat" where
  "count_tokens tokens = sum_list (map (\<lambda>(ex, toks). length toks) tokens)"

section \<open>The market-data stream client\<close>

text \<open>
  The client object is a record of its private fields, followed by the part of the
  world it acts on: the sockets it has created (a socket handle is its index), the
  signals it has emitted, the frames it has sent, the sockets it has asked to close,
  the pending reconnect timeouts and the debug console.

  Listeners are outside the model: \<open>emit\<close> records the signal and returns.
\<close>

datatype readyState = WS_CONNECTING | WS_OPEN | WS_CLOSING | WS_CLOSED

text \<open>A socket remembers whether the \<open>connect()\<close> call that created it came from
  \<open>attemptReconnect\<close>, whose promise continues with \<open>resubscribe()\<close>.\<close>

record socket =
  readyState :: readyState
  then_resubscribe :: bool

datatype json = JNull | JString string | JNumber int | JObject "(string \<times> json) list"

datatype payload =
    NoArgs
  | TickArg tick
  | CloseArg int string
  | ReasonArg string
  | ErrorObject string string string
  | TransportError
  | AttemptArg nat
  | JsonArg json
  | StatusError "json option" json

datatype outframe = Ping | Request WebSocketRequest

record ApiResponse =
  status :: bool
  message :: string

datatype promise = Resolved ApiResponse | Rejected ApiResponse

text \<open>An incoming frame: a string together with what \<open>JSON.parse\<close> returns for it, or
  a byte buffer.\<close>

datatype wsdata = Text string "exn + json" | Binary buffer

record client =
  ws :: "nat option"
  connectionState :: ConnectionState
  subscriptions :: "(string \<times> SubscriptionData) list"
  reconnectAttempts :: nat
  heartbeatInterval :: "nat option"
  debug :: bool
  pendingSubscriptions :: "SubscriptionData list"
  sockets :: "socket list"
  emitted :: "(string \<times> payload) list"
  sent :: "(nat \<times> outframe) list"
  closeCalls :: "nat list"
  timeouts :: "nat list"
  console :: "string list"

definition maxReconnectAttempts :: nat where [simp]: "maxReconnectAttempts = 5"
definition reconnectInterval :: nat where [simp]: "reconnectInterval = 5000"

definition new_client :: "bool \<Rightarrow> client" where
  "new_client dbg =
     \<lparr> ws = None, connectionState = DISCONNECTED, subscriptions = [], reconnectAttempts = 0,
       heartbeatInterval = None, debug = dbg, pendingSubscriptions = [], sockets = [],
       emitted = [], sent = [], closeCalls = [], timeouts = [], console = [] \<rparr>"

definition log :: "string \<Rightarrow> client \<Rightarrow> client" where
  "log msg st = (if debug st then st\<lparr>console := console st @ [msg]\<rparr> else st)"

definition emit :: "string \<Rightarrow> payload \<Rightarrow> client \<Rightarrow> client" where
  "emit ev arg st = st\<lparr>emitted := emitted st @ [(ev, arg)]\<rparr>"

definition ws_open :: "client \<Rightarrow> nat option" where
  "ws_open st =
     (case ws st of
        None \<Rightarrow> None
      | Some w \<Rightarrow> if w < length (sockets st) \<and> readyState (sockets st ! w) = WS_OPEN
                  then Some w else None)"

definition set_readyState :: "nat \<Rightarrow> readyState \<Rightarrow> client \<Rightarrow> client" where
  "set_readyState i r st =
     (if i < length (sockets st)
      then st\<lparr>sockets := (sockets st)[i := (sockets st ! i)\<lparr>readyState := r\<rparr>]\<rparr> else st)"

definition clearHeartbeat :: "client \<Rightarrow> client" where
  "clearHeartbeat st = st\<lparr>heartbeatInterval := None\<rparr>"

definition setupHeartbeat :: "client \<Rightarrow> client" where
  "setupHeartbeat st = (clearHeartbeat st)\<lparr>heartbeatInterval := Some 30000\<rparr>"

definition heartbeat_tick :: "client \<Rightarrow> client" where
  "heartbeat_tick st =
     (case ws_open st of
        None \<Rightarrow> st
      | Some w \<Rightarrow> (log ''Sending heartbeat'' st)\<lparr>sent := sent st @ [(w, Ping)]\<rparr>)"

text \<open>A JavaScript \<open>Map\<close> keeps insertion order, and \<open>set\<close> on a present key keeps the
  key's place: \<open>AList.update\<close>. The grouping idiom
  \<open>if (!m.has(k)) m.set(k, []); m.get(k).push(v)\<close> is \<open>push_group\<close>.\<close>

fun push_group :: "'k \<Rightarrow> 'v \<Rightarrow> ('k \<times> 'v list) list \<Rightarrow> ('k \<times> 'v list) list" where
  "push_group k v [] = [(k, [v])]"
| "push_group k v ((k', vs) # m) =
     (if k' = k then (k', vs @ [v]) # m else (k', vs) # push_group k v m)"

definition count_nse_cm :: "tokenList \<Rightarrow> nat" where
  "count_nse_cm tokens = sum_list (map (\<lambda>(ex, toks). if ex = NSE_CM then length toks else 0) tokens)"

definition sendSubscriptionRequest ::
  "string \<Rightarrow> FeedMode \<Rightarrow> tokenList \<Rightarrow> Action \<Rightarrow> client \<Rightarrow> client" where
  "sendSubscriptionRequest cid fm tokens act st =
     (case ws_open st of
        None \<Rightarrow> log ''Cannot send request - WebSocket not connected'' st
      | Some w \<Rightarrow>
          if fm = DEPTH_20 \<and> 50 < count_nse_cm tokens then
            emit ''error''
              (ErrorObject ''E1002'' ''Invalid Request. Subscription Limit Exceeded.'' cid)
              (log ''Error: Depth20 mode has a limit of 50 tokens per connection'' st)
          else
            (let request = \<lparr>correlationID = cid, action = act, req_mode = fm, req_tokenList = tokens\<rparr>;
                 st1 = log ''Sending request'' st
             in st1\<lparr>sent := sent st1 @ [(w, Request request)]\<rparr>))"

subsection \<open>Pending subscriptions\<close>

definition save_and_group :: "SubscriptionData list \<Rightarrow> tokenList \<times> client \<Rightarrow> tokenList \<times> client" where
  "save_and_group subs acc =
     foldl (\<lambda>(exchangeTokens, st) sub.
              (push_group (SubscriptionData.exchangeType sub) (SubscriptionData.token sub) exchangeTokens,
               st\<lparr>subscriptions :=
                    AList.update
                      (getSubscriptionKey (SubscriptionData.exchangeType sub) (SubscriptionData.token sub))
                      sub (subscriptions st)\<rparr>))
           acc subs"

text \<open>One iteration of the loop over the feed-mode groups. \<open>now\<close> is the reading of
  \<open>Date.now()\<close>; the loop reads the clock in every iteration, and one flush is taken to
  read the same millisecond throughout (the reading enters the correlation id of the
  request and nothing else). A group is created by its first push, so \<open>subs[0]\<close> exists.\<close>

definition process_group :: "int \<Rightarrow> client \<Rightarrow> string \<times> SubscriptionData list \<Rightarrow> client" where
  "process_group now st g =
     (case g of (groupKey, subs) \<Rightarrow>
        (case subs of
           [] \<Rightarrow> st
         | sub0 # _ \<Rightarrow>
             (let cid = ''pending-'' @ groupKey @ ''-'' @ show_int now;
                  fm = feedMode sub0;
                  (exchangeTokens, st1) = save_and_group subs ([], st)
              in sendSubscriptionRequest cid fm exchangeTokens SUBSCRIBE st1)))"

definition group_by_mode :: "SubscriptionData list \<Rightarrow> (string \<times> SubscriptionData list) list" where
  "group_by_mode subs = foldl (\<lambda>groups sub. push_group (show_int (feedMode sub)) sub groups) [] subs"

definition processPendingSubscriptions :: "int \<Rightarrow> client \<Rightarrow> client" where
  "processPendingSubscriptions now st =
     (if pendingSubscriptions st = [] then st
      else
        (let st1 = log ''Processing pending subscriptions'' st;
             st2 = foldl (process_group now) st1 (group_by_mode (pendingSubscriptions st1))
         in st2\<lparr>pendingSubscriptions := []\<rparr>))"

subsection \<open>Replaying the registry\<close>

fun push_nested ::
  "FeedMode \<Rightarrow> ExchangeType \<Rightarrow> string \<Rightarrow> (FeedMode \<times> tokenList) list \<Rightarrow> (FeedMode \<times> tokenList) list" where
  "push_nested m ex tok [] = [(m, [(ex, [tok])])]"
| "push_nested m ex tok ((m', exchangeMap) # rest) =
     (if m' = m then (m', push_group ex tok exchangeMap) # rest
      else (m', exchangeMap) # push_nested m ex tok rest)"

definition subscriptionsByMode :: "(string \<times> SubscriptionData) list \<Rightarrow> (FeedMode \<times> tokenList) list" where
  "subscriptionsByMode reg =
     foldl (\<lambda>groups (k, sub).
              push_nested (feedMode sub) (SubscriptionData.exchangeType sub) (SubscriptionData.token sub) groups)
           [] reg"

text \<open>The DEPTH_20 loop \<open>for (i = 0; i < n; i += 50)\<close> with its batch ids
  \<open>`resubscribe-depth20-${i/50}`\<close>; \<open>i\<close> is a multiple of 50 throughout.\<close>

function depth20_chunks :: "nat \<Rightarrow> string list \<Rightarrow> (string \<times> string list) list" where
  "depth20_chunks i toks =
     (if i < length toks
      then (''resubscribe-depth20-'' @ show_int (int (i div 50)), take 50 (drop i toks))
             # depth20_chunks (i + 50) toks
      else [])"
  by pat_completeness auto
termination
  by (relation "measure (\<lambda>(i, toks). length toks - i)") auto

declare depth20_chunks.simps [simp del]

definition batchSize :: nat where [simp]: "batchSize = 200"

text \<open>The inner \<open>while\<close> of the batching loop: exchanges are taken from the front of
  \<open>tokenList\<close> until the batch holds \<open>batchSize\<close> tokens; an exchange that does not fit
  is split, its first tokens go to the batch and the others stay in front.\<close>

function fill_batch :: "nat \<Rightarrow> tokenList \<Rightarrow> tokenList \<Rightarrow> tokenList \<times> tokenList" where
  "fill_batch totalTokenCount [] batch = (batch, [])"
| "fill_batch totalTokenCount ((ex, toks) # rest) batch =
     (if totalTokenCount < batchSize then
        (if length toks + totalTokenCount \<le> batchSize
         then fill_batch (totalTokenCount + length toks) rest (batch @ [(ex, toks)])
         else fill_batch (totalTokenCount + length (take (batchSize - totalTokenCount) toks))
                ((ex, drop (batchSize - totalTokenCount) toks) # rest)
                (batch @ [(ex, take (batchSize - totalTokenCount) toks)]))
      else (batch, (ex, toks) # rest))"
  by pat_completeness auto
termination
  by (relation "measure (\<lambda>(totalTokenCount, tokenList, batch).
                   2 * length tokenList + (if totalTokenCount < batchSize then 1 else 0))") auto

declare fill_batch.simps [simp del]

definition tokens_size :: "tokenList \<Rightarrow> nat" where
  "tokens_size tokenList = sum_list (map (\<lambda>(ex, toks). Suc (length toks)) tokenList)"

text \<open>The outer \<open>while\<close>: one frame per non-empty batch, numbered by \<open>batchCounter\<close>.\<close>

function mode_batches :: "FeedMode \<Rightarrow> nat \<Rightarrow> tokenList \<Rightarrow> (string \<times> tokenList) list" where
  "mode_batches m batchCounter tokenList =
     (if tokenList = [] then []
      else if fst (fill_batch 0 tokenList []) \<noteq> []
        then (''resubscribe-mode'' @ show_int m @ ''-'' @ show_int (int batchCounter),
              fst (fill_batch 0 tokenList []))
               # mode_batches m (batchCounter + 1) (snd (fill_batch 0 tokenList []))
        else mode_batches m batchCounter (snd (fill_batch 0 tokenList [])))"
  by pat_completeness auto
termination
proof -
  have le: "tokens_size (snd (fill_batch t xs b)) \<le> tokens_size xs" for t xs b
  proof (induction t xs b rule: fill_batch.induct)
    case (1 t b)
    then show ?case by (simp add: fill_batch.simps)
  next
    case (2 t ex toks rest b)
    show ?case
    proof (cases "t < batchSize")
      case False
      then show ?thesis by (simp add: fill_batch.simps)
    next
      case True
      show ?thesis
      proof (cases "length toks + t \<le> batchSize")
        case fits: True
        with True 2(1) show ?thesis
          by (simp add: fill_batch.simps tokens_size_def) 
      next
        case nofit: False
        with True 2(2) show ?thesis
          by (simp add: fill_batch.simps tokens_size_def)
      qed
    qed
  qed
  have less: "tokens_size (snd (fill_batch 0 xs [])) < tokens_size xs" if "xs \<noteq> []" for xs
  proof (cases xs)
    case Nil with that show ?thesis by simp
  next
    case (Cons p rest)
    obtain ex toks where p: "p = (ex, toks)" by (cases p)
    show ?thesis
    proof (cases "length toks \<le> batchSize")
      case True
      have "tokens_size (snd (fill_batch (0 + length toks) rest ([] @ [(ex, toks)]))) \<le> tokens_size rest"
        by (rule le)
      with True show ?thesis unfolding Cons p
        by (simp add: fill_batch.simps [of 0] tokens_size_def)
    next
      case False
      have "tokens_size (snd (fill_batch (0 + length (take (batchSize - 0) toks)) ((ex, drop (batchSize - 0) toks) # rest) ([] @ [(ex, take (batchSize - 0) toks)])))
              \<le> tokens_size ((ex, drop (batchSize - 0) toks) # rest)"
        by (rule le)
      with False show ?thesis unfolding Cons p
        by (simp add: fill_batch.simps [of 0] tokens_size_def)
    qed
  qed
  show ?thesis
    by (relation "measure (\<lambda>(m, batchCounter, tokenList). tokens_size tokenList)") (auto intro: less)
qed

declare mode_batches.simps [simp del]

definition send_all :: "FeedMode \<Rightarrow> (string \<times> tokenList) list \<Rightarrow> client \<Rightarrow> client" where
  "send_all m batches st =
     foldl (\<lambda>s (batchId, batch). sendSubscriptionRequest batchId m batch SUBSCRIBE s) st batches"

text \<open>The subscribe requests for one feed-mode group, as batch id and token list, in
  the order in which the loop sends them.\<close>

definition mode_requests :: "FeedMode \<times> tokenList \<Rightarrow> (string \<times> tokenList) list" where
  "mode_requests g =
     (case g of (m, exchangeMap) \<Rightarrow>
        if m = DEPTH_20 then
          (let nseCmTokens = (case map_of exchangeMap NSE_CM of Some toks \<Rightarrow> toks | None \<Rightarrow> [])
           in if 50 < length nseCmTokens then
                map (\<lambda>(batchId, batch). (batchId, [(NSE_CM, batch)])) (depth20_chunks 0 nseCmTokens)
              else if 0 < length nseCmTokens then
                [(''resubscribe-depth20'', [(NSE_CM, nseCmTokens)])]
              else [])
        else mode_batches m 0 exchangeMap)"

definition resubscribe_mode :: "client \<Rightarrow> FeedMode \<times> tokenList \<Rightarrow> client" where
  "resubscribe_mode st g = send_all (fst g) (mode_requests g) st"

definition resubscribe :: "client \<Rightarrow> client" where
  "resubscribe st =
     (if subscriptions st = [] then st
      else foldl resubscribe_mode (log ''Resubscribing'' st) (subscriptionsByMode (subscriptions st)))"

subsection \<open>Connecting, reconnecting and the socket handlers\<close>

text \<open>\<open>connect()\<close>: \<open>ctor_ok\<close> says whether \<open>new WebSocket\<close> returns (the source catches
  its failure); \<open>resub\<close> says whether the caller continues the promise with
  \<open>resubscribe()\<close>, as the reconnect timer does.\<close>

definition connect :: "bool \<Rightarrow> bool \<Rightarrow> client \<Rightarrow> client" where
  "connect ctor_ok resub st0 =
     (let st = log ''Connecting to WebSocket server'' st0 in
      if connectionState st = CONNECTED then
        (let st1 = log ''Already connected'' st in if resub then resubscribe st1 else st1)
      else
        (let st1 = st\<lparr>connectionState := CONNECTING\<rparr> in
         if ctor_ok then
           st1\<lparr>ws := Some (length (sockets st1)),
               sockets := sockets st1 @ [\<lparr>readyState = WS_CONNECTING, then_resubscribe = resub\<rparr>]\<rparr>
         else
           emit ''error'' TransportError
             ((log ''Failed to create WebSocket connection'' st1)\<lparr>connectionState := ERROR\<rparr>)))"

definition attemptReconnect :: "client \<Rightarrow> client" where
  "attemptReconnect st =
     (if maxReconnectAttempts \<le> reconnectAttempts st then
        emit ''reconnect_failed'' NoArgs (log ''Maximum reconnect attempts reached'' st)
      else
        (let st1 = st\<lparr>reconnectAttempts := reconnectAttempts st + 1\<rparr>;
             st2 = emit ''reconnecting'' (AttemptArg (reconnectAttempts st1))
                     (log ''Attempting to reconnect'' st1)
         in st2\<lparr>timeouts := timeouts st2 @ [reconnectInterval]\<rparr>))"

text \<open>The callback of the reconnect timeout.\<close>

definition reconnect_timeout :: "bool \<Rightarrow> client \<Rightarrow> client" where
  "reconnect_timeout ctor_ok st = connect ctor_ok True (st\<lparr>timeouts := tl (timeouts st)\<rparr>)"

text \<open>The handlers registered on socket \<open>i\<close>. They refer to the client, not to the
  socket they were registered on, and are never removed.\<close>

definition on_open :: "nat \<Rightarrow> int \<Rightarrow> client \<Rightarrow> client" where
  "on_open i now st0 =
     (let st = set_readyState i WS_OPEN st0;
          st1 = log ''WebSocket connected'' (st\<lparr>connectionState := CONNECTED\<rparr>);
          st2 = setupHeartbeat (st1\<lparr>reconnectAttempts := 0\<rparr>);
          st3 = processPendingSubscriptions now st2;
          st4 = emit ''connected'' NoArgs st3
      in if i < length (sockets st0) \<and> then_resubscribe (sockets st0 ! i)
         then resubscribe st4 else st4)"

definition on_error :: "nat \<Rightarrow> client \<Rightarrow> client" where
  "on_error i st =
     emit ''error'' TransportError ((log ''WebSocket error'' st)\<lparr>connectionState := ERROR\<rparr>)"

definition on_close :: "nat \<Rightarrow> int \<Rightarrow> string \<Rightarrow> client \<Rightarrow> client" where
  "on_close i code reason st0 =
     (let st = set_readyState i WS_CLOSED st0;
          st1 = clearHeartbeat (log ''WebSocket closed'' st);
          st2 = emit ''disconnect'' (CloseArg code reason) (st1\<lparr>connectionState := DISCONNECTED\<rparr>)
      in attemptReconnect st2)"

definition try_catch :: "exn + 'a \<Rightarrow> (exn \<Rightarrow> exn + 'a) \<Rightarrow> exn + 'a" where
  "try_catch body handler = (case body of Inl e \<Rightarrow> handler e | Inr v \<Rightarrow> Inr v)"

text \<open>\<open>parseBinaryMessage\<close>: the decoding and the two emissions are the body of one
  \<open>try\<close>; the \<open>catch\<close> logs. \<open>Inl\<close> is an exception that leaves the method.\<close>

definition emit_tick :: "tick \<Rightarrow> client \<Rightarrow> client" where
  "emit_tick t st =
     (let st1 = emit ''tick'' (TickArg t) (log ''Parsed tick data'' st);
          key = getSubscriptionKey (tick.exchangeType t) (tick.token t)
      in case map_of (subscriptions st1) key of
           None \<Rightarrow> st1
         | Some subscription \<Rightarrow> emit (''tick:'' @ correlationId subscription) (TickArg t) st1)"

definition parseBinaryMessage :: "buffer \<Rightarrow> client \<Rightarrow> exn + client" where
  "parseBinaryMessage data st =
     try_catch (bind_exn (decode_tick data) (\<lambda>t. Inr (emit_tick t st)))
       (\<lambda>error. Inr (log ''Error parsing binary message:'' st))"

definition get_prop :: "json \<Rightarrow> string \<Rightarrow> exn + json option" where
  "get_prop v k =
     (case v of JNull \<Rightarrow> Inl TypeError | JObject props \<Rightarrow> Inr (map_of props k) | _ \<Rightarrow> Inr None)"

fun truthy :: "json option \<Rightarrow> bool" where
  "truthy None = False"
| "truthy (Some JNull) = False"
| "truthy (Some (JString s)) = (s \<noteq> [])"
| "truthy (Some (JNumber n)) = (n \<noteq> 0)"
| "truthy (Some (JObject props)) = True"

definition on_message :: "wsdata \<Rightarrow> client \<Rightarrow> exn + client" where
  "on_message data st =
     try_catch
       (case data of
          Text s parsed \<Rightarrow>
            if s = ''pong'' then Inr (log ''Received heartbeat response'' st)
            else
              try_catch
                (bind_exn parsed (\<lambda>msg.
                 bind_exn (get_prop msg ''errorCode'') (\<lambda>errorCode.
                 bind_exn (get_prop msg ''errorMessage'') (\<lambda>errorMessage.
                   if truthy errorCode \<or> truthy errorMessage
                   then Inr (emit ''error'' (JsonArg msg) (log ''Received error'' st))
                   else Inr (emit ''message'' (JsonArg msg) (log ''Received text message'' st))))))
                (\<lambda>e. Inr (log ''Unknown text message'' st))
        | Binary buf \<Rightarrow> parseBinaryMessage buf st)
       (\<lambda>e. Inr (log ''Failed to process WebSocket message'' st))"

subsection \<open>The public operations\<close>

definition resolved :: "string \<Rightarrow> promise" where
  "resolved msg = Resolved \<lparr>status = True, message = msg\<rparr>"

definition rejected :: "string \<Rightarrow> promise" where
  "rejected msg = Rejected \<lparr>status = False, message = msg\<rparr>"

text \<open>\<open>subscribe\<close>. The promise is settled before the method returns; a later
  rejection by the \<open>connect()\<close> it started has no effect on a settled promise.\<close>

definition subscribe ::
  "string \<Rightarrow> ExchangeType \<Rightarrow> string \<Rightarrow> FeedMode \<Rightarrow> bool \<Rightarrow> client \<Rightarrow> promise \<times> client" where
  "subscribe cid ex tok fm ctor_ok st =
     (if fm = DEPTH_20 \<and> ex \<noteq> NSE_CM then
        (rejected ''20-Depth Mode is available only for NSE_CM segment'', st)
      else if connectionState st \<noteq> CONNECTED then
        (let st1 = log ''Not connected yet, queuing subscription'' st;
             st2 = st1\<lparr>pendingSubscriptions := pendingSubscriptions st1 @
                     [\<lparr>correlationId = cid, exchangeType = ex, token = tok, feedMode = fm\<rparr>]\<rparr>;
             st3 = (if connectionState st2 = DISCONNECTED then connect ctor_ok False st2 else st2)
         in (resolved ''Subscription queued'', st3))
      else
        (let key = getSubscriptionKey ex tok;
             st1 = st\<lparr>subscriptions :=
                       AList.update key
                         \<lparr>correlationId = cid, exchangeType = ex, token = tok, feedMode = fm\<rparr>
                         (subscriptions st)\<rparr>;
             st2 = sendSubscriptionRequest cid fm [(ex, [tok])] SUBSCRIBE st1
         in (resolved ''Subscription request sent'', st2)))"

text \<open>The correlation id \<open>subscribeMultiple\<close> stores with each symbol.\<close>

definition symbol_id :: "string \<Rightarrow> ExchangeType \<times> string \<Rightarrow> string" where
  "symbol_id cid symbol = cid @ ''-'' @ show_int (fst symbol) @ ''-'' @ snd symbol"

definition symbol_sub :: "string \<Rightarrow> FeedMode \<Rightarrow> ExchangeType \<times> string \<Rightarrow> SubscriptionData" where
  "symbol_sub cid fm symbol =
     \<lparr>correlationId = symbol_id cid symbol, exchangeType = fst symbol, token = snd symbol,
      feedMode = fm\<rparr>"

definition save_symbols ::
  "string \<Rightarrow> FeedMode \<Rightarrow> (ExchangeType \<times> string) list \<Rightarrow> tokenList \<times> client \<Rightarrow> tokenList \<times> client" where
  "save_symbols cid fm symbols acc =
     foldl (\<lambda>(exchangeTokens, st) symbol.
              (push_group (fst symbol) (snd symbol) exchangeTokens,
               st\<lparr>subscriptions :=
                    AList.update (getSubscriptionKey (fst symbol) (snd symbol))
                      (symbol_sub cid fm symbol) (subscriptions st)\<rparr>))
           acc symbols"

definition subscribeMultiple ::
  "string \<Rightarrow> (ExchangeType \<times> string) list \<Rightarrow> FeedMode \<Rightarrow> bool \<Rightarrow> client \<Rightarrow> promise \<times> client" where
  "subscribeMultiple cid symbols fm ctor_ok st =
     (if fm = DEPTH_20 \<and> find (\<lambda>s. fst s \<noteq> NSE_CM) symbols \<noteq> None then
        (rejected ''20-Depth Mode is available only for NSE_CM segment'', st)
      else if fm = DEPTH_20 \<and> 50 < length symbols then
        (rejected ''For 20-Depth Mode, the maximum limit is 50 tokens per connection'', st)
      else if connectionState st \<noteq> CONNECTED then
        (let st1 = log ''Not connected yet, queuing multiple subscriptions'' st;
             st2 = st1\<lparr>pendingSubscriptions :=
                         pendingSubscriptions st1 @ map (symbol_sub cid fm) symbols\<rparr>;
             st3 = (if connectionState st2 = DISCONNECTED then connect ctor_ok False st2 else st2)
         in (resolved ''Multiple subscriptions queued'', st3))
      else
        (let (exchangeTokens, st1) = save_symbols cid fm symbols ([], st);
             st2 = sendSubscriptionRequest cid fm exchangeTokens SUBSCRIBE st1
         in (resolved ''Multiple subscription request sent'', st2)))"

definition unsubscribe :: "string \<Rightarrow> ExchangeType \<Rightarrow> string \<Rightarrow> client \<Rightarrow> promise \<times> client" where
  "unsubscribe cid ex tok st =
     (if connectionState st \<noteq> CONNECTED then (rejected ''WebSocket is not connected'', st)
      else
        (let key = getSubscriptionKey ex tok;
             st1 = (if map_of (subscriptions st) key = None
                    then log ''Unsubscription warning - not explicitly subscribed'' st else st);
             st2 = sendSubscriptionRequest cid LTP [(ex, [tok])] UNSUBSCRIBE st1;
             st3 = st2\<lparr>subscriptions := AList.delete key (subscriptions st2)\<rparr>
         in (resolved ''Unsubscription request sent'', st3)))"

definition unsubscribeMultiple ::
  "string \<Rightarrow> (ExchangeType \<times> string) list \<Rightarrow> client \<Rightarrow> promise \<times> client" where
  "unsubscribeMultiple cid symbols st =
     (if connectionState st \<noteq> CONNECTED then (rejected ''WebSocket is not connected'', st)
      else
        (let (exchangeTokens, st1) =
               foldl (\<lambda>(exchangeTokens, s) symbol.
                        (push_group (fst symbol) (snd symbol) exchangeTokens,
                         s\<lparr>subscriptions :=
                             AList.delete (getSubscriptionKey (fst symbol) (snd symbol))
                               (subscriptions s)\<rparr>))
                     ([], st) symbols;
             st2 = sendSubscriptionRequest cid LTP exchangeTokens UNSUBSCRIBE st1
         in (resolved ''Multiple unsubscription request sent'', st2)))"

text \<open>\<open>ws.close()\<close>: the call is recorded, and a socket that was connecting or open is
  closing from then on; its \<open>close\<close> event comes later, from the transport.\<close>

definition ws_close :: "nat \<Rightarrow> client \<Rightarrow> client" where
  "ws_close w st =
     (let st1 = st\<lparr>closeCalls := closeCalls st @ [w]\<rparr> in
      if w < length (sockets st1) \<and> readyState (sockets st1 ! w) \<in> {WS_CONNECTING, WS_OPEN}
      then set_readyState w WS_CLOSING st1 else st1)"

definition disconnect :: "client \<Rightarrow> client" where
  "disconnect st =
     (if connectionState st = DISCONNECTED then log ''Already disconnected'' st
      else
        (let st1 = clearHeartbeat ((log ''Disconnecting'' st)\<lparr>connectionState := DISCONNECTING\<rparr>);
             st2 = st1\<lparr>pendingSubscriptions := []\<rparr>
         in case ws st2 of
              None \<Rightarrow> st2
            | Some w \<Rightarrow>
                emit ''disconnect'' (ReasonArg ''User initiated disconnect'')
                  ((ws_close w (st2\<lparr>subscriptions := []\<rparr>))
                     \<lparr>ws := None, connectionState := DISCONNECTED\<rparr>)))"

subsection \<open>Runs of the client\<close>

text \<open>What can happen to a client: a call of a public operation, an event of one of
  its sockets, or a timer. A socket event is possible only in a matching ready state;
  a socket that was asked to close still delivers its events until it is closed.\<close>

datatype event =
    Call_connect bool
  | Call_disconnect
  | Call_subscribe string ExchangeType string FeedMode bool
  | Call_subscribeMultiple string "(ExchangeType \<times> string) list" FeedMode bool
  | Call_unsubscribe string ExchangeType string
  | Call_unsubscribeMultiple string "(ExchangeType \<times> string) list"
  | Socket_open nat int
  | Socket_message nat wsdata
  | Socket_error nat
  | Socket_close nat int string
  | Timer_reconnect bool
  | Timer_heartbeat

definition socket_state :: "client \<Rightarrow> nat \<Rightarrow> readyState option" where
  "socket_state st i = (if i < length (sockets st) then Some (readyState (sockets st ! i)) else None)"

fun enabled :: "client \<Rightarrow> event \<Rightarrow> bool" where
  "enabled st (Socket_open i now) = (socket_state st i = Some WS_CONNECTING)"
| "enabled st (Socket_message i d) = (socket_state st i \<in> {Some WS_OPEN, Some WS_CLOSING})"
| "enabled st (Socket_error i) = (socket_state st i \<in> {Some WS_CONNECTING, Some WS_OPEN, Some WS_CLOSING})"
| "enabled st (Socket_close i code reason) =
     (socket_state st i \<in> {Some WS_CONNECTING, Some WS_OPEN, Some WS_CLOSING})"
| "enabled st (Timer_reconnect ctor_ok) = (timeouts st \<noteq> [])"
| "enabled st Timer_heartbeat = (heartbeatInterval st \<noteq> None)"
| "enabled st _ = True"

fun step :: "client \<Rightarrow> event \<Rightarrow> exn + client" where
  "step st (Call_connect ctor_ok) = Inr (connect ctor_ok False st)"
| "step st Call_disconnect = Inr (disconnect st)"
| "step st (Call_subscribe cid ex tok fm ctor_ok) = Inr (snd (subscribe cid ex tok fm ctor_ok st))"
| "step st (Call_subscribeMultiple cid symbols fm ctor_ok) =
     Inr (snd (subscribeMultiple cid symbols fm ctor_ok st))"
| "step st (Call_unsubscribe cid ex tok) = Inr (snd (unsubscribe cid ex tok st))"
| "step st (Call_unsubscribeMultiple cid symbols) = Inr (snd (unsubscribeMultiple cid symbols st))"
| "step st (Socket_open i now) = Inr (on_open i now st)"
| "step st (Socket_message i d) = on_message d st"
| "step st (Socket_error i) = Inr (on_error i st)"
| "step st (Socket_close i code reason) = Inr (on_close i code reason st)"
| "step st (Timer_reconnect ctor_ok) = Inr (reconnect_timeout ctor_ok st)"
| "step st Timer_heartbeat = Inr (heartbeat_tick st)"

text \<open>A run stops with \<open>None\<close> at an event that is not possible or at an exception
  that leaves a handler.\<close>

fun run :: "client \<Rightarrow> event list \<Rightarrow> client option" where
  "run st [] = Some st"
| "run st (e # es) =
     (if enabled st e then (case step st e of Inl x \<Rightarrow> None | Inr st' \<Rightarrow> run st' es) else None)"

text \<open>A client after \<open>connect()\<close> and the opening of its socket.\<close>

definition connected_client :: client where
  "connected_client = on_open 0 0 (connect True False (new_client False))"

subsection \<open>What a replay sends\<close>

text \<open>The requests \<open>resubscribe()\<close> builds for a registry, in the order of sending; the
  (mode, exchange, token) triples of a request, of the grouped registry and of the
  registry itself; and the property of a registry that \<open>subscribe\<close> and
  \<open>subscribeMultiple\<close> maintain by their validation.\<close>

definition resubscribe_requests :: "(string \<times> SubscriptionData) list \<Rightarrow> WebSocketRequest list" where
  "resubscribe_requests reg =
     concat (map (\<lambda>g. map (\<lambda>(batchId, batch).
                            \<lparr>correlationID = batchId, action = SUBSCRIBE, req_mode = fst g,
                             req_tokenList = batch\<rparr>)
                       (mode_requests g))
                 (subscriptionsByMode reg))"

definition request_entries :: "WebSocketRequest \<Rightarrow> (FeedMode \<times> ExchangeType \<times> string) multiset" where
  "request_entries r = image_mset (Pair (req_mode r)) (entries_of (req_tokenList r))"

definition nested_entries :: "(FeedMode \<times> tokenList) list \<Rightarrow> (FeedMode \<times> ExchangeType \<times> string) multiset" where
  "nested_entries groups =
     sum_list (map (\<lambda>(m, exchangeMap). image_mset (Pair m) (entries_of exchangeMap)) groups)"

definition registry_entries ::
  "(string \<times> SubscriptionData) list \<Rightarrow> (FeedMode \<times> ExchangeType \<times> string) multiset" where
  "registry_entries reg =
     mset (map (\<lambda>(k, sub). (feedMode sub, SubscriptionData.exchangeType sub, SubscriptionData.token sub)) reg)"

definition depth20_nse_only :: "SubscriptionData list \<Rightarrow> bool" where
  "depth20_nse_only subs =
     (\<forall>sub \<in> set subs. feedMode sub = DEPTH_20 \<longrightarrow> SubscriptionData.exchangeType sub = NSE_CM)"

definition groups_ok :: "(FeedMode \<times> tokenList) list \<Rightarrow> bool" where
  "groups_ok groups =
     (\<forall>(m, exchangeMap) \<in> set groups.
        distinct (map fst exchangeMap) \<and> (m = DEPTH_20 \<longrightarrow> fst ` set exchangeMap \<subseteq> {NSE_CM}))"

text \<open>An unexpected closure of socket \<open>i\<close>, followed by the reconnect timeout (whose
  \<open>connect()\<close> creates the next socket) and by the opening of that socket.\<close>

definition reconnected :: "nat \<Rightarrow> int \<Rightarrow> string \<Rightarrow> int \<Rightarrow> client \<Rightarrow> client" where
  "reconnected i code reason now st =
     on_open (length (sockets st)) now (reconnect_timeout True (on_close i code reason st))"

text \<open>A connected client with two LTP subscriptions.\<close>

definition subscribed_client :: client where
  "subscribed_client =
     snd (subscribeMultiple ''b'' [(NSE_CM, ''3045''), (BSE_CM, ''500325'')] LTP True connected_client)"

text \<open>The requests of one feed-mode group.\<close>

definition group_requests :: "FeedMode \<times> tokenList \<Rightarrow> WebSocketRequest list" where
  "group_requests g =
     map (\<lambda>p. \<lparr>correlationID = fst p, action = SUBSCRIBE, req_mode = fst g, req_tokenList = snd p\<rparr>)
       (mode_requests g)"

subsection \<open>What a flush of the pending queue sends\<close>

text \<open>The registry key and the (mode, exchange, token) triple of a subscription; the
  request built for one feed-mode group of the queue; the requests of a queue, one per
  group; and the test \<open>sendSubscriptionRequest\<close> applies before it sends.\<close>

definition sub_key :: "SubscriptionData \<Rightarrow> string" where
  "sub_key sub = getSubscriptionKey (SubscriptionData.exchangeType sub) (SubscriptionData.token sub)"


definition exchange_tokens :: "SubscriptionData list \<Rightarrow> tokenList" where
  "exchange_tokens subs =
     foldl (\<lambda>m sub. push_group (SubscriptionData.exchangeType sub) (SubscriptionData.token sub) m) [] subs"

definition group_request :: "int \<Rightarrow> string \<times> SubscriptionData list \<Rightarrow> WebSocketRequest" where
  "group_request now g =
     \<lparr>correlationID = ''pending-'' @ fst g @ ''-'' @ show_int now, action = SUBSCRIBE,
      req_mode = feedMode (hd (snd g)), req_tokenList = exchange_tokens (snd g)\<rparr>"

definition pending_requests :: "int \<Rightarrow> SubscriptionData list \<Rightarrow> WebSocketRequest list" where
  "pending_requests now q = map (group_request now) (group_by_mode q)"

definition accepted :: "WebSocketRequest \<Rightarrow> bool" where
  "accepted r = (\<not> (req_mode r = DEPTH_20 \<and> 50 < count_nse_cm (req_tokenList r)))"

definition record_all ::
  "SubscriptionData list \<Rightarrow> (string \<times> SubscriptionData) list \<Rightarrow> (string \<times> SubscriptionData) list" where
  "record_all subs reg = foldl (\<lambda>reg sub. AList.update (sub_key sub) sub reg) reg subs"




text \<open>A client on which, before any connection, \<open>subscribe\<close> was called for token 1594
  in LTP mode and for token 3045 in QUOTE mode, and then \<open>subscribeMultiple\<close> for token
  3045 in LTP mode.\<close>

definition displaced_client :: client where
  "displaced_client =
     snd (subscribeMultiple ''batch'' [(NSE_CM, ''3045'')] LTP True
       (snd (subscribe ''x'' NSE_CM ''3045'' QUOTE True
         (snd (subscribe ''z'' NSE_CM ''1594'' LTP True (new_client False))))))"


section \<open>The order-status stream client\<close>

text \<open>Class \<open>OrderStatusWebSocket\<close>, with the same conventions; its fields carry the
  prefix \<open>o_\<close>. A socket of this client is just its ready state.\<close>

record order_client =
  o_ws :: "nat option"
  o_connectionState :: ConnectionState
  o_reconnectAttempts :: nat
  o_heartbeatInterval :: "nat option"
  o_pingInterval :: "nat option"
  o_debug :: bool
  o_clientCode :: "json option"
  o_sockets :: "readyState list"
  o_emitted :: "(string \<times> payload) list"
  o_sent :: "(nat \<times> outframe) list"
  o_closeCalls :: "nat list"
  o_timeouts :: "nat list"
  o_console :: "string list"

definition new_order_client :: "bool \<Rightarrow> order_client" where
  "new_order_client dbg =
     \<lparr> o_ws = None, o_connectionState = DISCONNECTED, o_reconnectAttempts = 0,
       o_heartbeatInterval = None, o_pingInterval = None, o_debug = dbg,
       o_clientCode = Some (JString []), o_sockets = [], o_emitted = [], o_sent = [],
       o_closeCalls = [], o_timeouts = [], o_console = [] \<rparr>"

definition o_log :: "string \<Rightarrow> order_client \<Rightarrow> order_client" where
  "o_log msg st = (if o_debug st then st\<lparr>o_console := o_console st @ [msg]\<rparr> else st)"

definition o_emit :: "string \<Rightarrow> payload \<Rightarrow> order_client \<Rightarrow> order_client" where
  "o_emit ev arg st = st\<lparr>o_emitted := o_emitted st @ [(ev, arg)]\<rparr>"

definition o_clearHeartbeat :: "order_client \<Rightarrow> order_client" where
  "o_clearHeartbeat st = st\<lparr>o_heartbeatInterval := None, o_pingInterval := None\<rparr>"

definition o_setupHeartbeat :: "order_client \<Rightarrow> order_client" where
  "o_setupHeartbeat st = (o_clearHeartbeat st)\<lparr>o_pingInterval := Some 10000\<rparr>"

definition o_ping_tick :: "order_client \<Rightarrow> order_client" where
  "o_ping_tick st =
     (case o_ws st of
        None \<Rightarrow> st
      | Some w \<Rightarrow>
          if w < length (o_sockets st) \<and> o_sockets st ! w = WS_OPEN
          then (o_log ''Sending ping'' st)\<lparr>o_sent := o_sent st @ [(w, Ping)]\<rparr> else st)"

definition o_connect :: "bool \<Rightarrow> order_client \<Rightarrow> order_client" where
  "o_connect ctor_ok st0 =
     (let st = o_log ''Connecting to Order Status WebSocket server'' st0 in
      if o_connectionState st = CONNECTED then o_log ''Already connected'' st
      else
        (let st1 = st\<lparr>o_connectionState := CONNECTING\<rparr> in
         if ctor_ok then
           st1\<lparr>o_ws := Some (length (o_sockets st1)), o_sockets := o_sockets st1 @ [WS_CONNECTING]\<rparr>
         else
           o_emit ''error'' TransportError
             ((o_log ''Failed to create WebSocket connection'' st1)\<lparr>o_connectionState := ERROR\<rparr>)))"

definition o_attemptReconnect :: "order_client \<Rightarrow> order_client" where
  "o_attemptReconnect st =
     (if maxReconnectAttempts \<le> o_reconnectAttempts st then
        o_emit ''reconnect_failed'' NoArgs (o_log ''Maximum reconnect attempts reached'' st)
      else
        (let st1 = st\<lparr>o_reconnectAttempts := o_reconnectAttempts st + 1\<rparr>;
             st2 = o_emit ''reconnecting'' (AttemptArg (o_reconnectAttempts st1))
                     (o_log ''Attempting to reconnect'' st1)
         in st2\<lparr>o_timeouts := o_timeouts st2 @ [reconnectInterval]\<rparr>))"

definition o_reconnect_timeout :: "bool \<Rightarrow> order_client \<Rightarrow> order_client" where
  "o_reconnect_timeout ctor_ok st = o_connect ctor_ok (st\<lparr>o_timeouts := tl (o_timeouts st)\<rparr>)"

definition o_set_readyState :: "nat \<Rightarrow> readyState \<Rightarrow> order_client \<Rightarrow> order_client" where
  "o_set_readyState i r st =
     (if i < length (o_sockets st) then st\<lparr>o_sockets := (o_sockets st)[i := r]\<rparr> else st)"

definition o_ws_close :: "nat \<Rightarrow> order_client \<Rightarrow> order_client" where
  "o_ws_close w st =
     (let st1 = st\<lparr>o_closeCalls := o_closeCalls st @ [w]\<rparr> in
      if w < length (o_sockets st1) \<and> o_sockets st1 ! w \<in> {WS_CONNECTING, WS_OPEN}
      then o_set_readyState w WS_CLOSING st1 else st1)"

definition o_disconnect :: "order_client \<Rightarrow> order_client" where
  "o_disconnect st =
     (if o_connectionState st = DISCONNECTED then o_log ''Already disconnected'' st
      else
        (let st1 = o_clearHeartbeat ((o_log ''Disconnecting'' st)\<lparr>o_connectionState := DISCONNECTING\<rparr>)
         in case o_ws st1 of
              None \<Rightarrow> st1
            | Some w \<Rightarrow>
                o_emit ''disconnect'' (ReasonArg ''User initiated disconnect'')
                  ((o_ws_close w st1)\<lparr>o_ws := None, o_connectionState := DISCONNECTED\<rparr>)))"

definition o_on_open :: "nat \<Rightarrow> order_client \<Rightarrow> order_client" where
  "o_on_open i st0 =
     (let st = o_set_readyState i WS_OPEN st0;
          st1 = o_log ''WebSocket connected'' (st\<lparr>o_connectionState := CONNECTED\<rparr>);
          st2 = o_setupHeartbeat (st1\<lparr>o_reconnectAttempts := 0\<rparr>)
      in o_emit ''connected'' NoArgs st2)"

definition o_on_error :: "nat \<Rightarrow> order_client \<Rightarrow> order_client" where
  "o_on_error i st =
     o_emit ''error'' TransportError ((o_log ''WebSocket error'' st)\<lparr>o_connectionState := ERROR\<rparr>)"

definition o_on_close :: "nat \<Rightarrow> int \<Rightarrow> string \<Rightarrow> order_client \<Rightarrow> order_client" where
  "o_on_close i code reason st0 =
     (let st = o_set_readyState i WS_CLOSED st0;
          st1 = o_clearHeartbeat (o_log ''WebSocket closed'' st);
          st2 = o_emit ''disconnect'' (CloseArg code reason) (st1\<lparr>o_connectionState := DISCONNECTED\<rparr>)
      in o_attemptReconnect st2)"

text \<open>Property access on a parsed message that is not \<open>null\<close>, and the string a
  template literal makes of a value.\<close>

definition field_of :: "json \<Rightarrow> string \<Rightarrow> json option" where
  "field_of v k = (case v of JObject props \<Rightarrow> map_of props k | _ \<Rightarrow> None)"

fun js_string :: "json option \<Rightarrow> string" where
  "js_string None = ''undefined''"
| "js_string (Some JNull) = ''null''"
| "js_string (Some (JString s)) = s"
| "js_string (Some (JNumber n)) = show_int n"
| "js_string (Some (JObject props)) = ''[object Object]''"

definition OrderStatusCode_CONNECTED :: string where
  [simp]: "OrderStatusCode_CONNECTED = ''AB00''"

text \<open>The handling of a parsed message. Reading a property of \<open>null\<close> raises a type
  error at the first access, before anything else was done.\<close>

definition o_fan_out :: "json \<Rightarrow> order_client \<Rightarrow> order_client" where
  "o_fan_out msg st =
     (let st1 = o_emit ''message'' (JsonArg msg) (o_log ''Received order update'' st);
          orderStatus = field_of msg ''order-status''
      in if truthy orderStatus \<and> orderStatus \<noteq> Some (JString OrderStatusCode_CONNECTED) then
           (let st2 = o_emit ''order-update'' (JsonArg msg) st1;
                st3 = o_emit (''order-'' @ js_string orderStatus) (JsonArg msg) st2;
                orderData = field_of msg ''orderData''
            in if truthy orderData \<and> truthy (field_of (the orderData) ''orderid'')
               then o_emit (''order-'' @ js_string (field_of (the orderData) ''orderid'')) (JsonArg msg) st3
               else st3)
         else st1)"

definition o_handle :: "json \<Rightarrow> order_client \<Rightarrow> exn + order_client" where
  "o_handle msg st =
     (if msg = JNull then Inl TypeError
      else
        (let st1 = (if field_of msg ''order-status'' = Some (JString OrderStatusCode_CONNECTED)
                    then o_log ''Connected successfully. Client code:''
                           (st\<lparr>o_clientCode := field_of msg ''user-id''\<rparr>)
                    else st);
             statusCode = field_of msg ''status-code''
         in if statusCode \<noteq> Some (JString ''200'') then
              (let errorMessage = (if truthy (field_of msg ''error-message'')
                                   then the (field_of msg ''error-message'')
                                   else JString ''Unknown error'');
                   st2 = o_emit ''error'' (StatusError statusCode errorMessage)
                           (o_log ''Received error'' st1)
               in if statusCode = Some (JString ''401'') then
                    Inr (o_disconnect (o_log ''Authentication failed: Invalid authorization token'' st2))
                  else if statusCode = Some (JString ''403'') then
                    Inr (o_disconnect (o_log ''Authentication failed: Authorization token expired'' st2))
                  else if statusCode = Some (JString ''429'') then
                    Inr (o_disconnect
                           (o_log ''Connection limit breached: Maximum 3 connections per client code'' st2))
                  else Inr st2)
            else Inr (o_fan_out msg st1)))"

definition o_on_message :: "wsdata \<Rightarrow> order_client \<Rightarrow> exn + order_client" where
  "o_on_message data st =
     try_catch
       (case data of
          Text s parsed \<Rightarrow>
            if s = ''pong'' then Inr (o_log ''Received heartbeat response'' st)
            else try_catch (bind_exn parsed (\<lambda>msg. o_handle msg st))
                   (\<lambda>e. Inr (o_log ''Unknown text message'' st))
        | Binary buf \<Rightarrow> Inr st)
       (\<lambda>e. Inr (o_log ''Failed to process WebSocket message'' st))"

datatype order_event =
    OCall_connect bool
  | OCall_disconnect
  | OSocket_open nat
  | OSocket_message nat wsdata
  | OSocket_error nat
  | OSocket_close nat int string
  | OTimer_reconnect bool
  | OTimer_ping

definition o_socket_state :: "order_client \<Rightarrow> nat \<Rightarrow> readyState option" where
  "o_socket_state st i = (if i < length (o_sockets st) then Some (o_sockets st ! i) else None)"

fun o_enabled :: "order_client \<Rightarrow> order_event \<Rightarrow> bool" where
  "o_enabled st (OSocket_open i) = (o_socket_state st i = Some WS_CONNECTING)"
| "o_enabled st (OSocket_message i d) = (o_socket_state st i \<in> {Some WS_OPEN, Some WS_CLOSING})"
| "o_enabled st (OSocket_error i) =
     (o_socket_state st i \<in> {Some WS_CONNECTING, Some WS_OPEN, Some WS_CLOSING})"
| "o_enabled st (OSocket_close i code reason) =
     (o_socket_state st i \<in> {Some WS_CONNECTING, Some WS_OPEN, Some WS_CLOSING})"
| "o_enabled st (OTimer_reconnect ctor_ok) = (o_timeouts st \<noteq> [])"
| "o_enabled st OTimer_ping = (o_pingInterval st \<noteq> None)"
| "o_enabled st _ = True"

fun o_step :: "order_client \<Rightarrow> order_event \<Rightarrow> exn + order_client" where
  "o_step st (OCall_connect ctor_ok) = Inr (o_connect ctor_ok st)"
| "o_step st OCall_disconnect = Inr (o_disconnect st)"
| "o_step st (OSocket_open i) = Inr (o_on_open i st)"
| "o_step st (OSocket_message i d) = o_on_message d st"
| "o_step st (OSocket_error i) = Inr (o_on_error i st)"
| "o_step st (OSocket_close i code reason) = Inr (o_on_close i code reason st)"
| "o_step st (OTimer_reconnect ctor_ok) = Inr (o_reconnect_timeout ctor_ok st)"
| "o_step st OTimer_ping = Inr (o_ping_tick st)"

fun o_run :: "order_client \<Rightarrow> order_event list \<Rightarrow> order_client option" where
  "o_run st [] = Some st"
| "o_run st (e # es) =
     (if o_enabled st e then (case o_step st e of Inl x \<Rightarrow> None | Inr st' \<Rightarrow> o_run st' es)
      else None)"

text \<open>The order-status frame \<open>{"status-code":"401","error-message":"Invalid Token"}\<close>
  and its parse.\<close>

definition dq :: "string \<Rightarrow> string" where
  "dq s = CHR 0x22 # s @ [CHR 0x22]"

definition unauthorized_frame :: wsdata where
  "unauthorized_frame =
     Text (''{'' @ dq ''status-code'' @ '':'' @ dq ''401'' @ '','' @
             dq ''error-message'' @ '':'' @ dq ''Invalid Token'' @ ''}'')
          (Inr (JObject [(''status-code'', JString ''401''),
                         (''error-message'', JString ''Invalid Token'')]))"

section \<open>Basic facts about the client state\<close>

lemma log_fields [simp]:
  "ws (log m st) = ws st" "connectionState (log m st) = connectionState st"
  "subscriptions (log m st) = subscriptions st" "reconnectAttempts (log m st) = reconnectAttempts st"
  "heartbeatInterval (log m st) = heartbeatInterval st" "debug (log m st) = debug st"
  "pendingSubscriptions (log m st) = pendingSubscriptions st" "sockets (log m st) = sockets st"
  "emitted (log m st) = emitted st" "sent (log m st) = sent st"
  "closeCalls (log m st) = closeCalls st" "timeouts (log m st) = timeouts st"
  by (simp_all add: log_def)

lemma emit_fields [simp]:
  "ws (emit ev a st) = ws st" "connectionState (emit ev a st) = connectionState st"
  "subscriptions (emit ev a st) = subscriptions st" "reconnectAttempts (emit ev a st) = reconnectAttempts st"
  "heartbeatInterval (emit ev a st) = heartbeatInterval st" "debug (emit ev a st) = debug st"
  "pendingSubscriptions (emit ev a st) = pendingSubscriptions st" "sockets (emit ev a st) = sockets st"
  "emitted (emit ev a st) = emitted st @ [(ev, a)]" "sent (emit ev a st) = sent st"
  "closeCalls (emit ev a st) = closeCalls st" "timeouts (emit ev a st) = timeouts st"
  "console (emit ev a st) = console st"
  by (simp_all add: emit_def)

lemma ws_open_cong: "ws st' = ws st \<Longrightarrow> sockets st' = sockets st \<Longrightarrow> ws_open st' = ws_open st"
  by (auto simp: ws_open_def split: option.splits)

lemma ws_open_simps [simp]:
  "ws_open (log m st) = ws_open st" "ws_open (emit ev a st) = ws_open st"
  "ws_open (st\<lparr>subscriptions := reg\<rparr>) = ws_open st"
  "ws_open (st\<lparr>pendingSubscriptions := q\<rparr>) = ws_open st"
  "ws_open (st\<lparr>sent := fs\<rparr>) = ws_open st"
  by (rule ws_open_cong; simp)+

lemma run_append:
  "run st (xs @ ys) = (case run st xs of None \<Rightarrow> None | Some st' \<Rightarrow> run st' ys)"
  by (induction xs arbitrary: st) (auto split: sum.splits)

section \<open>Validation of DEPTH_20 requests\<close>

lemma subscribe_depth20_rejected:
  "ex \<noteq> NSE_CM \<Longrightarrow>
     subscribe cid ex tok DEPTH_20 ok st =
       (rejected ''20-Depth Mode is available only for NSE_CM segment'', st)"
  by (simp add: subscribe_def)

lemma subscribe_nse_resolves:
  "\<exists>msg st'. subscribe cid NSE_CM tok DEPTH_20 ok st = (resolved msg, st')"
  by (auto simp add: subscribe_def Let_def)

lemma subscribe_nse_connected_sends:
  "connectionState st = CONNECTED \<Longrightarrow> ws_open st = Some w \<Longrightarrow>
   sent (snd (subscribe cid NSE_CM tok DEPTH_20 ok st)) =
     sent st @ [(w, Request \<lparr>correlationID = cid, action = SUBSCRIBE, req_mode = DEPTH_20,
                              req_tokenList = [(NSE_CM, [tok])]\<rparr>)]"
  by (simp add: subscribe_def Let_def sendSubscriptionRequest_def count_nse_cm_def)

lemma subscribeMultiple_depth20_rejected:
  "(\<exists>s \<in> set symbols. fst s \<noteq> NSE_CM) \<or> 50 < length symbols \<Longrightarrow>
     \<exists>msg. subscribeMultiple cid symbols DEPTH_20 ok st = (rejected msg, st)"
  by (auto simp: subscribeMultiple_def find_None_iff)

text \<open>
  C6. \<open>subscribe\<close> with DEPTH_20 and an exchange type other than NSE_CM is rejected with
  the message about the NSE_CM segment and leaves the client as it was, so nothing is
  queued, connected or sent. \<open>subscribe\<close> with NSE_CM and DEPTH_20 resolves in every
  state, and on a connected client with an open socket it sends the one-token subscribe
  frame. \<open>subscribeMultiple\<close> with DEPTH_20 is rejected, again leaving the client as it
  was, when a symbol is not NSE_CM or when there are more than 50 symbols.
\<close>

theorem C6_depth20_validation:
  "(ex \<noteq> NSE_CM \<longrightarrow>
      subscribe cid ex tok DEPTH_20 ok st =
        (rejected ''20-Depth Mode is available only for NSE_CM segment'', st)) \<and>
   (\<exists>msg st'. subscribe cid NSE_CM tok DEPTH_20 ok st = (resolved msg, st')) \<and>
   (connectionState st = CONNECTED \<and> ws_open st = Some w \<longrightarrow>
      sent (snd (subscribe cid NSE_CM tok DEPTH_20 ok st)) =
        sent st @ [(w, Request \<lparr>correlationID = cid, action = SUBSCRIBE, req_mode = DEPTH_20,
                                 req_tokenList = [(NSE_CM, [tok])]\<rparr>)]) \<and>
   ((\<exists>s \<in> set symbols. fst s \<noteq> NSE_CM) \<or> 50 < length symbols \<longrightarrow>
      (\<exists>msg. subscribeMultiple cid symbols DEPTH_20 ok st = (rejected msg, st)))"
  using subscribe_depth20_rejected [of ex cid tok ok st]
    subscribe_nse_resolves [of cid tok ok st]
    subscribe_nse_connected_sends [of st w cid tok ok]
    subscribeMultiple_depth20_rejected [of symbols cid ok st]
  by blast

lemma connected_client_eq:
  "connected_client =
     \<lparr> ws = Some 0, connectionState = CONNECTED, subscriptions = [], reconnectAttempts = 0,
       heartbeatInterval = Some 30000, debug = False, pendingSubscriptions = [],
       sockets = [\<lparr>readyState = WS_OPEN, then_resubscribe = False\<rparr>],
       emitted = [(''connected'', NoArgs)], sent = [], closeCalls = [], timeouts = [],
       console = [] \<rparr>"
  by (simp add: connected_client_def new_client_def connect_def on_open_def set_readyState_def
        log_def emit_def setupHeartbeat_def clearHeartbeat_def processPendingSubscriptions_def
        Let_def)

theorem C6_depth20_validation_witness:
  "subscribe ''q'' BSE_CM ''500325'' DEPTH_20 True connected_client =
     (rejected ''20-Depth Mode is available only for NSE_CM segment'', connected_client) \<and>
   sent (snd (subscribe ''q'' NSE_CM ''3045'' DEPTH_20 True connected_client)) =
     [(0, Request \<lparr>correlationID = ''q'', action = SUBSCRIBE, req_mode = DEPTH_20,
                    req_tokenList = [(NSE_CM, [''3045''])]\<rparr>)] \<and>
   (\<exists>msg. subscribeMultiple ''q'' [(NSE_CM, ''3045''), (BSE_CM, ''500325'')] DEPTH_20 True
             connected_client = (rejected msg, connected_client)) \<and>
   (\<exists>msg. subscribeMultiple ''q'' (replicate 51 (NSE_CM, ''3045'')) DEPTH_20 True
             connected_client = (rejected msg, connected_client))"
proof -
  have open0: "connectionState connected_client = CONNECTED \<and> ws_open connected_client = Some 0"
    by (simp add: connected_client_eq ws_open_def)
  have bse: "BSE_CM \<noteq> NSE_CM" by simp
  have mixed: "(\<exists>s \<in> set [(NSE_CM, ''3045''), (BSE_CM, ''500325'')]. fst s \<noteq> NSE_CM)
                 \<or> 50 < length [(NSE_CM, ''3045''), (BSE_CM, ''500325'')]"
    by simp
  have many: "(\<exists>s \<in> set (replicate 51 (NSE_CM, ''3045'')). fst s \<noteq> NSE_CM)
                 \<or> 50 < length (replicate 51 (NSE_CM, ''3045''))"
    by simp
  have sent0: "sent connected_client = []" by (simp add: connected_client_eq)
  show ?thesis
    using C6_depth20_validation [of BSE_CM "''q''" "''500325''" True connected_client 0
            "[(NSE_CM, ''3045''), (BSE_CM, ''500325'')]"]
          C6_depth20_validation [of NSE_CM "''q''" "''3045''" True connected_client 0
            "replicate 51 (NSE_CM, ''3045'')"]
          open0 bse mixed many sent0
    by (metis append_Nil)
qed

section \<open>Explicit disconnect\<close>

lemma disconnect_noop:
  "connectionState st = DISCONNECTED \<Longrightarrow> disconnect st = log ''Already disconnected'' st"
  by (simp add: disconnect_def)

lemma disconnect_always:
  "connectionState st \<noteq> DISCONNECTED \<Longrightarrow>
     heartbeatInterval (disconnect st) = None \<and> pendingSubscriptions (disconnect st) = []"
  by (simp add: disconnect_def Let_def clearHeartbeat_def ws_close_def set_readyState_def
        split: option.splits)

lemma disconnect_socket:
  "connectionState st \<noteq> DISCONNECTED \<Longrightarrow> ws st = Some w \<Longrightarrow>
     subscriptions (disconnect st) = [] \<and> closeCalls (disconnect st) = closeCalls st @ [w] \<and>
     ws (disconnect st) = None \<and> connectionState (disconnect st) = DISCONNECTED \<and>
     emitted (disconnect st) = emitted st @ [(''disconnect'', ReasonArg ''User initiated disconnect'')]"
  by (simp add: disconnect_def Let_def clearHeartbeat_def ws_close_def set_readyState_def
        split: option.splits)

lemma disconnect_twice: "closeCalls (disconnect (disconnect st)) = closeCalls (disconnect st)"
proof (cases "connectionState st = DISCONNECTED")
  case True
  then show ?thesis by (simp add: disconnect_def)
next
  case False
  show ?thesis
  proof (cases "ws st")
    case None
    with False show ?thesis
      by (simp add: disconnect_def Let_def clearHeartbeat_def)
  next
    case (Some w)
    with False have "connectionState (disconnect st) = DISCONNECTED"
      using disconnect_socket by blast
    then show ?thesis by (simp add: disconnect_noop)
  qed
qed

text \<open>
  C7, as stated, fails where the client holds no socket: after a \<open>connect()\<close> whose
  socket could not be created the state is ERROR, and \<open>disconnect()\<close> then leaves the
  state DISCONNECTING, closes nothing and emits no \<open>disconnect\<close> signal.
\<close>

theorem C7_disconnect_without_socket_counterexample:
  "connectionState (connect False False (new_client False)) = ERROR \<and>
   connectionState (disconnect (connect False False (new_client False))) = DISCONNECTING \<and>
   closeCalls (disconnect (connect False False (new_client False))) = [] \<and>
   emitted (disconnect (connect False False (new_client False))) = [(''error'', TransportError)]"
  by (simp add: connect_def new_client_def disconnect_def Let_def log_def emit_def clearHeartbeat_def)

text \<open>
  C7, amended. \<open>disconnect()\<close> on a DISCONNECTED client does nothing but write the debug
  line. In every other state it stops the heartbeat and clears the pending queue; when
  the client holds a socket it also clears the registry, closes that socket, drops the
  handle, moves to DISCONNECTED and emits \<open>disconnect\<close> with the user-initiated reason.
  A second \<open>disconnect()\<close> closes nothing more.
\<close>

theorem C7_disconnect:
  "(connectionState st = DISCONNECTED \<longrightarrow> disconnect st = log ''Already disconnected'' st) \<and>
   (connectionState st \<noteq> DISCONNECTED \<longrightarrow>
      heartbeatInterval (disconnect st) = None \<and> pendingSubscriptions (disconnect st) = []) \<and>
   (connectionState st \<noteq> DISCONNECTED \<and> ws st = Some w \<longrightarrow>
      subscriptions (disconnect st) = [] \<and> closeCalls (disconnect st) = closeCalls st @ [w] \<and>
      ws (disconnect st) = None \<and> connectionState (disconnect st) = DISCONNECTED \<and>
      emitted (disconnect st) =
        emitted st @ [(''disconnect'', ReasonArg ''User initiated disconnect'')]) \<and>
   closeCalls (disconnect (disconnect st)) = closeCalls (disconnect st)"
  using disconnect_noop [of st] disconnect_always [of st] disconnect_socket [of st w]
    disconnect_twice [of st]
  by blast

theorem C7_disconnect_witness:
  "disconnect (new_client False) = new_client False \<and>
   heartbeatInterval (disconnect connected_client) = None \<and>
   pendingSubscriptions (disconnect connected_client) = [] \<and>
   subscriptions (disconnect connected_client) = [] \<and>
   closeCalls (disconnect connected_client) = [0] \<and>
   ws (disconnect connected_client) = None \<and>
   connectionState (disconnect connected_client) = DISCONNECTED \<and>
   emitted (disconnect connected_client) =
     [(''connected'', NoArgs), (''disconnect'', ReasonArg ''User initiated disconnect'')] \<and>
   closeCalls (disconnect (disconnect connected_client)) = [0]"
proof -
  have a: "connectionState (new_client False) = DISCONNECTED"
    by (simp add: new_client_def)
  have b: "log ''Already disconnected'' (new_client False) = new_client False"
    by (simp add: new_client_def log_def)
  have c: "connectionState connected_client \<noteq> DISCONNECTED \<and> ws connected_client = Some 0 \<and>
           closeCalls connected_client = [] \<and> emitted connected_client = [(''connected'', NoArgs)]"
    by (simp add: connected_client_eq)
  show ?thesis
    using C7_disconnect [of "new_client False" 0] C7_disconnect [of connected_client 0] a b c
    by simp
qed

section \<open>Reconnection after an explicit disconnect\<close>

text \<open>
  C2. A run of the market-data client: \<open>connect()\<close>, the socket opens, \<open>disconnect()\<close>,
  the socket that was asked to close reports its closure, the reconnect timeout fires.
  The close handler does not tell this closure from an unexpected one: it emits
  \<open>reconnecting\<close> and arms the 5000 ms timeout, and the timeout's \<open>connect()\<close> creates a
  second socket. So a reconnect attempt is scheduled, and made, after an explicit
  \<open>disconnect()\<close>.
\<close>

theorem C2_reconnect_after_disconnect:
  "run (new_client False)
     [Call_connect True, Socket_open 0 0, Call_disconnect, Socket_close 0 1005 []] =
   Some \<lparr> ws = None, connectionState = DISCONNECTED, subscriptions = [], reconnectAttempts = 1,
          heartbeatInterval = None, debug = False, pendingSubscriptions = [],
          sockets = [\<lparr>readyState = WS_CLOSED, then_resubscribe = False\<rparr>],
          emitted = [(''connected'', NoArgs),
                     (''disconnect'', ReasonArg ''User initiated disconnect''),
                     (''disconnect'', CloseArg 1005 []),
                     (''reconnecting'', AttemptArg 1)],
          sent = [], closeCalls = [0], timeouts = [5000], console = [] \<rparr> \<and>
   run (new_client False)
     [Call_connect True, Socket_open 0 0, Call_disconnect, Socket_close 0 1005 [],
      Timer_reconnect True] =
   Some \<lparr> ws = Some 1, connectionState = CONNECTING, subscriptions = [], reconnectAttempts = 1,
          heartbeatInterval = None, debug = False, pendingSubscriptions = [],
          sockets = [\<lparr>readyState = WS_CLOSED, then_resubscribe = False\<rparr>,
                     \<lparr>readyState = WS_CONNECTING, then_resubscribe = True\<rparr>],
          emitted = [(''connected'', NoArgs),
                     (''disconnect'', ReasonArg ''User initiated disconnect''),
                     (''disconnect'', CloseArg 1005 []),
                     (''reconnecting'', AttemptArg 1)],
          sent = [], closeCalls = [0], timeouts = [], console = [] \<rparr>"
  by (simp add: new_client_def connect_def on_open_def disconnect_def on_close_def
        attemptReconnect_def reconnect_timeout_def socket_state_def set_readyState_def log_def
        emit_def setupHeartbeat_def clearHeartbeat_def processPendingSubscriptions_def
        ws_close_def Let_def)

section \<open>Guarded reads succeed\<close>

lemma read_bytes_ok: "off + n \<le> length data \<Longrightarrow> read_bytes data off n = Inr (take n (drop off data))"
  by (simp add: read_bytes_def)

lemma num16_ok: "off + 2 \<le> length data \<Longrightarrow> num16 data off = Inr (Number (i16 data off))"
  by (simp add: num16_def readInt16LE_def read_bytes_ok bind_exn_def i16_def)

lemma num32_ok: "off + 4 \<le> length data \<Longrightarrow> num32 data off = Inr (Number (i32 data off))"
  by (simp add: num32_def readInt32LE_def read_bytes_ok bind_exn_def i32_def)

lemma readBigInt64LE_ok: "off + 8 \<le> length data \<Longrightarrow> readBigInt64LE data off = Inr (i64 data off)"
  by (simp add: readBigInt64LE_def read_bytes_ok bind_exn_def i64_def)

lemma num64_ok: "off + 8 \<le> length data \<Longrightarrow> num64 data off = Inr (Number (i64 data off))"
  by (simp add: num64_def readBigInt64LE_ok bind_exn_def)

lemma depth20_packet_ok:
  "base + i * 10 + 10 \<le> length data \<Longrightarrow>
     depth20_packet data (base + i * 10) = Inr (depth20_entry data base i)"
  by (simp add: depth20_packet_def num32_ok num16_ok bind_exn_def depth20_entry_def)

lemma depth20_loop_ok:
  "\<forall>i \<in> set ixs. base + i * 10 + 10 \<le> length data \<Longrightarrow>
     depth20_loop data base ixs acc = Inr (acc @ map (depth20_entry data base) ixs)"
  by (induction ixs arbitrary: acc) (simp_all add: depth20_packet_ok bind_exn_def)

lemma depth20_block_ok:
  "base + 200 \<le> length data \<Longrightarrow>
     depth20_loop data base [0..<20] [] = Inr (map (depth20_entry data base) [0..<20])"
  using depth20_loop_ok [of "[0..<20]" base data "[]"] by simp

lemma assign_ok:
  "(c \<Longrightarrow> rd = Inr v) \<Longrightarrow> assign c rd upd t = Inr (if c then upd v t else t)"
  by (simp add: assign_def bind_exn_def)

lemma normalize_no_ltp: "lastTradedPrice t = None \<Longrightarrow> normalize t = t"
  by (simp add: normalize_def)

section \<open>Decoding DEPTH_20 frames\<close>

lemma decode_depth20_nse:
  assumes "readInt8 data 0 = Inr DEPTH_20" "readInt8 data 1 = Inr NSE_CM"
    "read_token data 25 0 [] = Inr tok" "443 \<le> length data"
  shows "decode_tick data =
     Inr ((base_tick DEPTH_20 NSE_CM tok)
            \<lparr> sequenceNumber := Some (i64 data 27),
              exchangeTimestamp := Some (Number (i64 data 27)),
              dummyPlaceholder := Some (Number (i64 data 35)),
              bestBids := Some (map (depth20_entry data 43) [0..<20]),
              bestAsks := Some (map (depth20_entry data 243) [0..<20]) \<rparr>)"
proof -
  have ex: "extract_tick data =
     Inr ((base_tick DEPTH_20 NSE_CM tok)
            \<lparr> sequenceNumber := Some (i64 data 27),
              exchangeTimestamp := Some (Number (i64 data 27)),
              dummyPlaceholder := Some (Number (i64 data 35)),
              bestBids := Some (map (depth20_entry data 43) [0..<20]),
              bestAsks := Some (map (depth20_entry data 243) [0..<20]) \<rparr>)"
    using assms
    by (simp add: extract_tick_def bind_exn_def mode_fields_def depth20_fields_def assign_def
          readBigInt64LE_ok num64_ok depth20_block_ok base_tick_def)
  show ?thesis
    unfolding decode_tick_def ex by (simp add: bind_exn_def normalize_no_ltp base_tick_def)
qed

lemma decode_depth20_other:
  assumes "readInt8 data 0 = Inr DEPTH_20" "readInt8 data 1 = Inr ex"
    "read_token data 25 0 [] = Inr tok" "\<not> (ex = NSE_CM \<and> 443 \<le> length data)"
  shows "decode_tick data =
     Inr ((base_tick DEPTH_20 ex tok)
            \<lparr> sequenceNumber := (if 35 \<le> length data then Some (i64 data 27) else None),
              exchangeTimestamp := (if 43 \<le> length data then Some (Number (i64 data 35)) else None) \<rparr>)"
proof -
  have ex: "extract_tick data =
     Inr ((base_tick DEPTH_20 ex tok)
            \<lparr> sequenceNumber := (if 35 \<le> length data then Some (i64 data 27) else None),
              exchangeTimestamp := (if 43 \<le> length data then Some (Number (i64 data 35)) else None) \<rparr>)"
    using assms
    by (auto simp add: extract_tick_def bind_exn_def mode_fields_def depth20_fields_def assign_def
          readBigInt64LE_ok num64_ok base_tick_def)
  show ?thesis
    unfolding decode_tick_def ex by (simp add: bind_exn_def normalize_no_ltp base_tick_def)
qed

lemma depth20_frame_header:
  "readInt8 (depth20_frame NSE_CM) 0 = Inr DEPTH_20"
  "readInt8 (depth20_frame NSE_CM) 1 = Inr NSE_CM"
  "read_token (depth20_frame NSE_CM) 25 0 [] = Inr ''3045''"
  "readInt8 (depth20_frame BSE_CM) 0 = Inr DEPTH_20"
  "readInt8 (depth20_frame BSE_CM) 1 = Inr BSE_CM"
  "read_token (depth20_frame BSE_CM) 25 0 [] = Inr ''3045''"
  "length (depth20_frame ex) = 443"
  "i64 (depth20_frame BSE_CM) 27 = 7" "i64 (depth20_frame BSE_CM) 35 = 0"
  "depth20_entry (depth20_frame NSE_CM) 43 0 = \<lparr>quantity = Number 5, price = Number 12345, numOrders = Number 2\<rparr>"
  by code_simp+


text \<open>
  C3, as stated, fails: a DEPTH_20 frame of full length whose exchange byte is BSE_CM
  decodes to a tick without the two arrays, although its forty packets are there.
\<close>

theorem C3_depth20_other_exchange_counterexample:
  "decode_tick (depth20_frame BSE_CM) =
     Inr ((base_tick DEPTH_20 BSE_CM ''3045'')
            \<lparr>sequenceNumber := Some 7, exchangeTimestamp := Some (Number 0)\<rparr>) \<and>
   bestBids ((base_tick DEPTH_20 BSE_CM ''3045'')
            \<lparr>sequenceNumber := Some 7, exchangeTimestamp := Some (Number 0)\<rparr>) = None \<and>
   bestAsks ((base_tick DEPTH_20 BSE_CM ''3045'')
            \<lparr>sequenceNumber := Some 7, exchangeTimestamp := Some (Number 0)\<rparr>) = None"
  using decode_depth20_other [of "depth20_frame BSE_CM" BSE_CM "''3045''"] depth20_frame_header
  by (simp add: base_tick_def)

text \<open>
  C3, amended. For a frame whose mode byte is DEPTH_20 and whose header can be read, the
  decoder returns a tick. The twenty bids and the twenty asks are extracted, from
  offsets 43 and 243 in 10-byte packets, exactly when the exchange byte is NSE_CM and the
  frame has at least 443 bytes; for every other exchange type, and for a shorter frame,
  the tick carries neither array.
\<close>

theorem C3_depth20_layout:
  assumes "readInt8 data 0 = Inr DEPTH_20" "readInt8 data 1 = Inr ex"
    "read_token data 25 0 [] = Inr tok"
  shows "\<exists>t. decode_tick data = Inr t \<and>
     (ex = NSE_CM \<and> 443 \<le> length data \<longrightarrow>
        bestBids t = Some (map (depth20_entry data 43) [0..<20]) \<and>
        bestAsks t = Some (map (depth20_entry data 243) [0..<20])) \<and>
     (\<not> (ex = NSE_CM \<and> 443 \<le> length data) \<longrightarrow> bestBids t = None \<and> bestAsks t = None)"
proof (cases "ex = NSE_CM \<and> 443 \<le> length data")
  case True
  with assms show ?thesis
    using decode_depth20_nse [of data tok] by (simp add: base_tick_def)
next
  case False
  with assms show ?thesis
    using decode_depth20_other [of data ex tok] by (simp add: base_tick_def)
qed

theorem C3_depth20_layout_witness:
  "(\<exists>t. decode_tick (depth20_frame NSE_CM) = Inr t \<and>
        bestBids t = Some (map (depth20_entry (depth20_frame NSE_CM) 43) [0..<20]) \<and>
        bestAsks t = Some (map (depth20_entry (depth20_frame NSE_CM) 243) [0..<20])) \<and>
   (\<exists>t. decode_tick (depth20_frame BSE_CM) = Inr t \<and> bestBids t = None \<and> bestAsks t = None)"
  using C3_depth20_layout [of "depth20_frame NSE_CM" NSE_CM "''3045''"]
    C3_depth20_layout [of "depth20_frame BSE_CM" BSE_CM "''3045''"] depth20_frame_header
  by simp

section \<open>Price scaling\<close>

lemma normalize_scales_prices:
  assumes "lastTradedPrice r = Some p"
  defines "d \<equiv> (if tick.exchangeType r = CDE_FO then 10000000 else 100)"
  shows "lastTradedPrice (normalize r) = Some (Quot p d)"
    "openPrice (normalize r) = map_option (\<lambda>x. Quot x d) (openPrice r)"
    "highPrice (normalize r) = map_option (\<lambda>x. Quot x d) (highPrice r)"
    "lowPrice (normalize r) = map_option (\<lambda>x. Quot x d) (lowPrice r)"
    "closePrice (normalize r) = map_option (\<lambda>x. Quot x d) (closePrice r)"
    "upperCircuitLimit (normalize r) = map_option (\<lambda>x. Quot x d) (upperCircuitLimit r)"
    "lowerCircuitLimit (normalize r) = map_option (\<lambda>x. Quot x d) (lowerCircuitLimit r)"
    "fiftyTwoWeekHighPrice (normalize r) = map_option (\<lambda>x. Quot x d) (fiftyTwoWeekHighPrice r)"
    "fiftyTwoWeekLowPrice (normalize r) = map_option (\<lambda>x. Quot x d) (fiftyTwoWeekLowPrice r)"
    "bestBids (normalize r) = map_option (scale_entries d) (bestBids r)"
    "bestAsks (normalize r) = map_option (scale_entries d) (bestAsks r)"
    "lastTradedQuantity (normalize r) = lastTradedQuantity r"
    "volumeTradedForTheDay (normalize r) = volumeTradedForTheDay r"
    "totalBuyQuantity (normalize r) = totalBuyQuantity r"
    "totalSellQuantity (normalize r) = totalSellQuantity r"
    "openInterest (normalize r) = openInterest r"
    "openInterestChangePercent (normalize r) = openInterestChangePercent r"
  using assms by (simp_all add: normalize_def Let_def)

lemma scale_entries_keeps_counts:
  "map quantity (scale_entries d es) = map quantity es"
  "map numOrders (scale_entries d es) = map numOrders es"
  "map price (scale_entries d es) = map (\<lambda>e. Quot (price e) d) es"
  by (simp_all add: scale_entries_def)

text \<open>
  C1. The division is applied only when the tick has a \<open>lastTradedPrice\<close>
  (\<open>normalize_scales_prices\<close> above is that case). A DEPTH_20 frame never has one. So
  for every NSE_CM DEPTH_20 frame of at least 443 bytes with a readable header the
  decoded tick has no last traded price, and the price of each of its twenty bids and
  twenty asks is the raw integer read from the wire: it was not divided by 100.
\<close>

theorem C1_depth20_prices_not_scaled:
  assumes "readInt8 data 0 = Inr DEPTH_20" "readInt8 data 1 = Inr NSE_CM"
    "read_token data 25 0 [] = Inr tok" "443 \<le> length data"
  shows "\<exists>t. decode_tick data = Inr t \<and> lastTradedPrice t = None \<and>
     map_option (map price) (bestBids t) =
       Some (map (\<lambda>i. Number (i32 data (43 + i * 10 + 4))) [0..<20]) \<and>
     map_option (map price) (bestAsks t) =
       Some (map (\<lambda>i. Number (i32 data (243 + i * 10 + 4))) [0..<20])"
  using decode_depth20_nse [OF assms] by (simp add: base_tick_def depth20_entry_def o_def)

lemma depth20_frame_bid_prices:
  "map (\<lambda>i. Number (i32 (depth20_frame NSE_CM) (43 + i * 10 + 4))) [0..<20] =
     replicate 20 (Number 12345)"
  by code_simp

theorem C1_depth20_prices_not_scaled_witness:
  "\<exists>t. decode_tick (depth20_frame NSE_CM) = Inr t \<and> lastTradedPrice t = None \<and>
     map_option (map price) (bestBids t) = Some (replicate 20 (Number 12345))"
  using C1_depth20_prices_not_scaled [of "depth20_frame NSE_CM" "''3045''"] depth20_frame_header
    depth20_frame_bid_prices
  by auto

section \<open>Undecodable frames\<close>

lemma try_catch_total: "try_catch body (\<lambda>e. Inr (h e)) = Inr (case body of Inl e \<Rightarrow> h e | Inr v \<Rightarrow> v)"
  by (simp add: try_catch_def split: sum.splits)

lemma parseBinaryMessage_eq:
  "parseBinaryMessage data st =
     Inr (case decode_tick data of
            Inl e \<Rightarrow> log ''Error parsing binary message:'' st
          | Inr t \<Rightarrow> emit_tick t st)"
  by (simp add: parseBinaryMessage_def try_catch_total bind_exn_def split: sum.splits)

lemma on_message_binary:
  "on_message (Binary data) st = parseBinaryMessage data st"
  by (simp add: on_message_def try_catch_def parseBinaryMessage_eq)

lemma on_message_total: "\<exists>st'. on_message d st = Inr st'"
  by (simp add: on_message_def try_catch_total)

lemma decode_short: "length data < 2 \<Longrightarrow> decode_tick data = Inl RangeError"
  by (auto simp add: decode_tick_def extract_tick_def readInt8_def read_bytes_def bind_exn_def)

lemma decode_ltp:
  assumes "readInt8 data 0 = Inr LTP" "readInt8 data 1 = Inr ex"
    "read_token data 25 0 [] = Inr tok" "51 \<le> length data"
  shows "decode_tick data =
     Inr ((base_tick LTP ex tok)
            \<lparr> sequenceNumber := Some (i64 data 27),
              exchangeTimestamp := Some (Number (i64 data 35)),
              lastTradedPrice :=
                Some (Quot (Number (i32 data 43)) (if ex = CDE_FO then 10000000 else 100)) \<rparr>)"
proof -
  have ex: "extract_tick data =
     Inr ((base_tick LTP ex tok)
            \<lparr> sequenceNumber := Some (i64 data 27),
              exchangeTimestamp := Some (Number (i64 data 35)),
              lastTradedPrice := Some (Number (i32 data 43)) \<rparr>)"
    using assms
    by (simp add: extract_tick_def bind_exn_def mode_fields_def assign_def
          readBigInt64LE_ok num64_ok num32_ok base_tick_def)
  show ?thesis
    unfolding decode_tick_def ex by (simp add: bind_exn_def normalize_def base_tick_def Let_def)
qed

lemma ltp_frame_reads:
  "readInt8 ltp_frame 0 = Inr 1" "readInt8 ltp_frame 1 = Inr 1"
  "read_token ltp_frame 25 0 [] = Inr ''3045''" "length ltp_frame = 51"
  "i64 ltp_frame 27 = 7" "i64 ltp_frame 35 = 0" "i32 ltp_frame 43 = 45000"
  by code_simp+

lemma decode_ltp_frame: "decode_tick ltp_frame = Inr ltp_tick"
  using decode_ltp [of ltp_frame NSE_CM "''3045''"] ltp_frame_reads
  by (simp add: ltp_tick_def)

lemma decode_empty: "decode_tick [] = Inl RangeError"
  by (simp add: decode_short)

text \<open>
  C9. The message handler returns normally for every byte buffer: an exception of the
  decoder is caught inside \<open>parseBinaryMessage\<close>. A buffer of fewer than two bytes is one
  that cannot be decoded. When decoding fails the client is left as it was, except for
  the line on the debug console: nothing is emitted, and the run goes on with the
  frames that follow. When decoding succeeds the tick is emitted.
\<close>

theorem C9_decoder_never_throws:
  "(\<exists>st'. on_message (Binary data) st = Inr st') \<and>
   (length data < 2 \<longrightarrow> decode_tick data = Inl RangeError) \<and>
   (decode_tick data = Inl e \<longrightarrow>
      on_message (Binary data) st =
        Inr (if debug st then st\<lparr>console := console st @ [''Error parsing binary message:'']\<rparr>
             else st)) \<and>
   (decode_tick data = Inl e \<and> enabled st (Socket_message i (Binary data)) \<longrightarrow>
      run st (Socket_message i (Binary data) # later) =
        run (if debug st then st\<lparr>console := console st @ [''Error parsing binary message:'']\<rparr>
             else st) later) \<and>
   (decode_tick data = Inr t \<longrightarrow> on_message (Binary data) st = Inr (emit_tick t st))"
  by (auto simp add: on_message_binary parseBinaryMessage_eq decode_short log_def)

theorem C9_decoder_never_throws_witness:
  "decode_tick [] = Inl RangeError \<and>
   on_message (Binary []) connected_client = Inr connected_client \<and>
   run connected_client [Socket_message 0 (Binary []), Socket_message 0 (Binary ltp_frame)] =
     run connected_client [Socket_message 0 (Binary ltp_frame)] \<and>
   on_message (Binary ltp_frame) connected_client = Inr (emit_tick ltp_tick connected_client)"
proof -
  have len: "length ([] :: buffer) < 2" by simp
  have en: "enabled connected_client (Socket_message 0 (Binary []))"
    by (simp add: connected_client_eq socket_state_def)
  have dbg: "\<not> debug connected_client" by (simp add: connected_client_eq)
  show ?thesis
    using C9_decoder_never_throws [of "[]" connected_client RangeError 0
            "[Socket_message 0 (Binary ltp_frame)]" ltp_tick]
          C9_decoder_never_throws [of ltp_frame connected_client RangeError 0 "[]" ltp_tick]
          len en dbg decode_ltp_frame
    by simp
qed

section \<open>Error frames of the order-status feed\<close>

lemma o_log_fields [simp]:
  "o_ws (o_log m st) = o_ws st" "o_connectionState (o_log m st) = o_connectionState st"
  "o_reconnectAttempts (o_log m st) = o_reconnectAttempts st"
  "o_sockets (o_log m st) = o_sockets st" "o_emitted (o_log m st) = o_emitted st"
  "o_sent (o_log m st) = o_sent st" "o_closeCalls (o_log m st) = o_closeCalls st"
  "o_timeouts (o_log m st) = o_timeouts st" "o_clientCode (o_log m st) = o_clientCode st"
  by (simp_all add: o_log_def)

lemma o_on_message_total: "\<exists>st'. o_on_message d st = Inr st'"
  by (simp add: o_on_message_def try_catch_total)

lemma o_disconnect_emitted:
  "o_emitted (o_disconnect st) =
     o_emitted st @
       (if o_connectionState st \<noteq> DISCONNECTED \<and> o_ws st \<noteq> None
        then [(''disconnect'', ReasonArg ''User initiated disconnect'')] else [])"
  by (auto simp add: o_disconnect_def o_emit_def o_clearHeartbeat_def o_ws_close_def
        o_set_readyState_def Let_def split: option.splits)

lemma o_disconnect_closes:
  "o_connectionState st \<noteq> DISCONNECTED \<Longrightarrow> o_ws st = Some w \<Longrightarrow>
     o_closeCalls (o_disconnect st) = o_closeCalls st @ [w] \<and>
     o_connectionState (o_disconnect st) = DISCONNECTED \<and> o_ws (o_disconnect st) = None \<and>
     o_timeouts (o_disconnect st) = o_timeouts st"
  by (simp add: o_disconnect_def o_emit_def o_clearHeartbeat_def o_ws_close_def
        o_set_readyState_def Let_def)

text \<open>What the handler does with a parsed frame whose status code is not \<open>'200'\<close>: it
  emits \<open>error\<close> and nothing of the order events; for the codes 401, 403 and 429 it
  calls \<open>disconnect()\<close>, which by itself arms no timer.\<close>

lemma o_handle_error_status:
  assumes "msg \<noteq> JNull" "field_of msg ''status-code'' \<noteq> Some (JString ''200'')"
  defines "err \<equiv> (''error'',
             StatusError (field_of msg ''status-code'')
               (if truthy (field_of msg ''error-message'') then the (field_of msg ''error-message'')
                else JString ''Unknown error''))"
  shows "\<exists>st'. o_handle msg st = Inr st' \<and>
           o_timeouts st' = o_timeouts st \<and>
           o_emitted st' =
             o_emitted st @ err #
               (if field_of msg ''status-code'' \<in>
                     {Some (JString ''401''), Some (JString ''403''), Some (JString ''429'')}
                   \<and> o_connectionState st \<noteq> DISCONNECTED \<and> o_ws st \<noteq> None
                then [(''disconnect'', ReasonArg ''User initiated disconnect'')] else [])"
  using assms(1,2) unfolding err_def
  by (auto simp add: o_handle_def Let_def o_disconnect_emitted o_emit_def o_disconnect_def
        o_clearHeartbeat_def o_ws_close_def o_set_readyState_def split: option.splits)

text \<open>
  C8. A run of the order-status client: \<open>connect()\<close>, the socket opens, the server sends
  a frame with status code 401, the socket that \<open>disconnect()\<close> asked to close reports
  its closure, the reconnect timeout fires. The frame is emitted as \<open>error\<close> and the
  client disconnects at once, but the close handler then emits \<open>reconnecting\<close> and arms
  the timeout, and the timeout's \<open>connect()\<close> creates a second socket for the same
  token: an automatic retry follows the disconnect.
\<close>

theorem C8_retry_after_unauthorized:
  "o_run (new_order_client False)
     [OCall_connect True, OSocket_open 0, OSocket_message 0 unauthorized_frame] =
   Some \<lparr> o_ws = None, o_connectionState = DISCONNECTED, o_reconnectAttempts = 0,
          o_heartbeatInterval = None, o_pingInterval = None, o_debug = False,
          o_clientCode = Some (JString []), o_sockets = [WS_CLOSING],
          o_emitted = [(''connected'', NoArgs),
                       (''error'', StatusError (Some (JString ''401'')) (JString ''Invalid Token'')),
                       (''disconnect'', ReasonArg ''User initiated disconnect'')],
          o_sent = [], o_closeCalls = [0], o_timeouts = [], o_console = [] \<rparr> \<and>
   o_run (new_order_client False)
     [OCall_connect True, OSocket_open 0, OSocket_message 0 unauthorized_frame,
      OSocket_close 0 1005 [], OTimer_reconnect True] =
   Some \<lparr> o_ws = Some 1, o_connectionState = CONNECTING, o_reconnectAttempts = 1,
          o_heartbeatInterval = None, o_pingInterval = None, o_debug = False,
          o_clientCode = Some (JString []), o_sockets = [WS_CLOSED, WS_CONNECTING],
          o_emitted = [(''connected'', NoArgs),
                       (''error'', StatusError (Some (JString ''401'')) (JString ''Invalid Token'')),
                       (''disconnect'', ReasonArg ''User initiated disconnect''),
                       (''disconnect'', CloseArg 1005 []),
                       (''reconnecting'', AttemptArg 1)],
          o_sent = [], o_closeCalls = [0], o_timeouts = [], o_console = [] \<rparr>"
  by (simp add: new_order_client_def unauthorized_frame_def dq_def o_connect_def o_on_open_def
        o_on_message_def o_handle_def o_disconnect_def o_on_close_def o_attemptReconnect_def
        o_reconnect_timeout_def o_socket_state_def o_set_readyState_def o_log_def o_emit_def
        o_setupHeartbeat_def o_clearHeartbeat_def o_ws_close_def try_catch_def bind_exn_def
        field_of_def Let_def)

section \<open>Registry keys and correlation ids\<close>

lemma digits_nonempty: "digits n \<noteq> []"
  by (subst digits.simps) simp

lemma digits_chars: "c \<in> set (digits n) \<Longrightarrow> c \<in> char_of ` {48 ..< (58::nat)}"
proof (induction n rule: digits.induct)
  case (1 n)
  show ?case
  proof (cases "n < 10")
    case True
    with 1(2) have "c = char_of (48 + n)" by (subst (asm) digits.simps) simp
    with True show ?thesis by auto
  next
    case False
    with 1(2) have "c \<in> set (digits (n div 10)) \<or> c = char_of (48 + n mod 10)"
      by (subst (asm) digits.simps) auto
    then show ?thesis
    proof
      assume "c \<in> set (digits (n div 10))"
      with 1(1) False show ?thesis by simp
    next
      assume "c = char_of (48 + n mod 10)"
      moreover have "48 + n mod 10 \<in> {48 ..< (58::nat)}" by simp
      ultimately show ?thesis by blast
    qed
  qed
qed

lemma digit_char_inj:
  "a < 10 \<Longrightarrow> b < 10 \<Longrightarrow> char_of (48 + a :: nat) = char_of (48 + b :: nat) \<Longrightarrow> a = b"
  by (simp add: char_of_eq_iff take_bit_nat_eq_self)

lemma digits_inj: "digits n = digits m \<Longrightarrow> n = m"
proof (induction n arbitrary: m rule: digits.induct)
  case (1 n)
  show ?case
  proof (cases "n < 10")
    case True
    then have dn: "digits n = [char_of (48 + n)]" by (subst digits.simps) simp
    show ?thesis
    proof (cases "m < 10")
      case m: True
      then have "digits m = [char_of (48 + m)]" by (subst digits.simps) simp
      with dn 1(2) True m show ?thesis by (simp add: digit_char_inj)
    next
      case m: False
      then have "digits m = digits (m div 10) @ [char_of (48 + m mod 10)]"
        by (subst digits.simps) simp
      with dn 1(2) digits_nonempty [of "m div 10"] show ?thesis
        by (cases "digits (m div 10)") auto
    qed
  next
    case False
    then have dn: "digits n = digits (n div 10) @ [char_of (48 + n mod 10)]"
      by (subst digits.simps) simp
    show ?thesis
    proof (cases "m < 10")
      case m: True
      then have "digits m = [char_of (48 + m)]" by (subst digits.simps) simp
      with dn 1(2) digits_nonempty [of "n div 10"] show ?thesis
        by (cases "digits (n div 10)") auto
    next
      case m: False
      then have dm: "digits m = digits (m div 10) @ [char_of (48 + m mod 10)]"
        by (subst digits.simps) simp
      from dn dm 1(2) have eq: "digits (n div 10) = digits (m div 10)"
        and last: "char_of (48 + n mod 10) = char_of (48 + m mod 10)" by simp_all
      from 1(1) [OF False eq] have "n div 10 = m div 10" .
      moreover from last have "n mod 10 = m mod 10" by (simp add: digit_char_inj)
      ultimately show ?thesis by (metis div_mult_mod_eq)
    qed
  qed
qed

lemma digits_no_sep: "CHR ''-'' \<notin> set (digits n)" "CHR '':'' \<notin> set (digits n)"
proof -
  have code: "of_char (char_of x :: char) = x" if "x < 58" for x :: nat
    using that by simp
  have "CHR ''-'' \<notin> char_of ` {48 ..< (58::nat)}"
  proof
    assume "CHR ''-'' \<in> char_of ` {48 ..< (58::nat)}"
    then obtain x :: nat where x: "CHR ''-'' = char_of x" "48 \<le> x" "x < 58" by auto
    from x(1) have "(of_char (CHR ''-'') :: nat) = of_char (char_of x :: char)" by simp
    with code [OF x(3)] x(2) show False by simp
  qed
  moreover have "CHR '':'' \<notin> char_of ` {48 ..< (58::nat)}"
  proof
    assume "CHR '':'' \<in> char_of ` {48 ..< (58::nat)}"
    then obtain x :: nat where x: "CHR '':'' = char_of x" "48 \<le> x" "x < 58" by auto
    from x(1) have "(of_char (CHR '':'') :: nat) = of_char (char_of x :: char)" by simp
    with code [OF x(3)] x(3) show False by simp
  qed
  ultimately show "CHR ''-'' \<notin> set (digits n)" "CHR '':'' \<notin> set (digits n)"
    using digits_chars by blast+
qed

lemma show_int_inj: "show_int a = show_int b \<Longrightarrow> a = b"
proof -
  assume eq: "show_int a = show_int b"
  have hd_digit: "hd (digits n) \<noteq> CHR ''-''" for n
    using digits_no_sep(1) [of n] digits_nonempty [of n] by (cases "digits n") auto
  show ?thesis
  proof (cases "a < 0")
    case True
    show ?thesis
    proof (cases "b < 0")
      case b: True
      with True eq have "digits (nat (- a)) = digits (nat (- b))" by (simp add: show_int_def)
      then have "nat (- a) = nat (- b)" by (rule digits_inj)
      with True b show ?thesis by simp
    next
      case b: False
      with True eq have "CHR ''-'' # digits (nat (- a)) = digits (nat b)" by (simp add: show_int_def)
      then have "hd (digits (nat b)) = CHR ''-''" by (metis list.sel(1))
      with hd_digit show ?thesis by blast
    qed
  next
    case False
    show ?thesis
    proof (cases "b < 0")
      case b: True
      with False eq have "digits (nat a) = CHR ''-'' # digits (nat (- b))" by (simp add: show_int_def)
      then have "hd (digits (nat a)) = CHR ''-''" by (metis list.sel(1))
      with hd_digit show ?thesis by blast
    next
      case b: False
      with False eq have "digits (nat a) = digits (nat b)" by (simp add: show_int_def)
      then have "nat a = nat b" by (rule digits_inj)
      with False b show ?thesis by simp
    qed
  qed
qed

lemma show_int_no_colon: "CHR '':'' \<notin> set (show_int a)"
  using digits_no_sep(2) by (simp add: show_int_def)

lemma split_at_sep:
  "c \<notin> set xs \<Longrightarrow> c \<notin> set xs' \<Longrightarrow> xs @ c # ys = xs' @ c # ys' \<Longrightarrow> xs = xs' \<and> ys = ys'"
proof (induction xs arbitrary: xs')
  case Nil
  then show ?case by (cases xs') auto
next
  case (Cons x xs)
  then show ?case by (cases xs') auto
qed

lemma getSubscriptionKey_inj:
  "getSubscriptionKey a t = getSubscriptionKey b u \<longleftrightarrow> a = b \<and> t = u"
proof
  assume "getSubscriptionKey a t = getSubscriptionKey b u"
  then have "show_int a @ CHR '':'' # t = show_int b @ CHR '':'' # u"
    by (simp add: getSubscriptionKey_def)
  then have "show_int a = show_int b \<and> t = u"
    using show_int_no_colon [of a] show_int_no_colon [of b] by (rule split_at_sep [rotated 2])
  then show "a = b \<and> t = u" using show_int_inj by blast
qed simp

section \<open>Correlation ids of batch subscriptions\<close>

lemma symbol_id_differs: "symbol_id cid s \<noteq> cid"
proof
  assume "symbol_id cid s = cid"
  then have "length (symbol_id cid s) = length cid" by simp
  then show False by (simp add: symbol_id_def)
qed

lemma symbol_key_inj:
  "getSubscriptionKey (fst s) (snd s) = getSubscriptionKey (fst s') (snd s') \<longleftrightarrow> s = s'"
  by (simp add: getSubscriptionKey_inj prod_eq_iff)

lemma save_symbols_snoc:
  "save_symbols cid fm (symbols @ [s]) acc =
     (case save_symbols cid fm symbols acc of (exchangeTokens, st) \<Rightarrow>
        (push_group (fst s) (snd s) exchangeTokens,
         st\<lparr>subscriptions :=
              AList.update (getSubscriptionKey (fst s) (snd s)) (symbol_sub cid fm s)
                (subscriptions st)\<rparr>))"
  by (simp add: save_symbols_def split: prod.splits)

lemma save_symbols_registry:
  "s \<in> set symbols \<Longrightarrow>
     map_of (subscriptions (snd (save_symbols cid fm symbols acc)))
       (getSubscriptionKey (fst s) (snd s)) = Some (symbol_sub cid fm s)"
proof (induction symbols rule: rev_induct)
  case Nil
  then show ?case by simp
next
  case (snoc x xs)
  obtain m st where r: "save_symbols cid fm xs acc = (m, st)" by (cases "save_symbols cid fm xs acc")
  show ?case
  proof (cases "x = s")
    case True
    then show ?thesis by (simp add: save_symbols_snoc r update_conv')
  next
    case False
    with snoc have "s \<in> set xs" by simp
    with snoc.IH r False show ?thesis
      by (simp add: save_symbols_snoc update_conv' symbol_key_inj)
  qed
qed

lemma save_symbols_other_fields:
  "ws (snd (save_symbols cid fm symbols (m, st))) = ws st \<and>
   sockets (snd (save_symbols cid fm symbols (m, st))) = sockets st \<and>
   emitted (snd (save_symbols cid fm symbols (m, st))) = emitted st \<and>
   pendingSubscriptions (snd (save_symbols cid fm symbols (m, st))) = pendingSubscriptions st"
proof (induction symbols rule: rev_induct)
  case Nil
  then show ?case by (simp add: save_symbols_def)
next
  case (snoc x xs)
  then show ?case
    by (cases "save_symbols cid fm xs (m, st)") (simp add: save_symbols_snoc)
qed

lemma sendSubscriptionRequest_keeps:
  "subscriptions (sendSubscriptionRequest cid fm tokens act st) = subscriptions st"
  "pendingSubscriptions (sendSubscriptionRequest cid fm tokens act st) = pendingSubscriptions st"
  "ws (sendSubscriptionRequest cid fm tokens act st) = ws st"
  "sockets (sendSubscriptionRequest cid fm tokens act st) = sockets st"
  "connectionState (sendSubscriptionRequest cid fm tokens act st) = connectionState st"
  by (simp_all add: sendSubscriptionRequest_def Let_def split: option.splits)

lemma subscribeMultiple_connected_registry:
  assumes "connectionState st = CONNECTED"
    "\<not> (fm = DEPTH_20 \<and> ((\<exists>s \<in> set symbols. fst s \<noteq> NSE_CM) \<or> 50 < length symbols))"
    "s \<in> set symbols"
  shows "map_of (subscriptions (snd (subscribeMultiple cid symbols fm ok st)))
           (getSubscriptionKey (fst s) (snd s)) = Some (symbol_sub cid fm s)"
proof -
  have nf: "fm = DEPTH_20 \<Longrightarrow> find (\<lambda>s. fst s \<noteq> NSE_CM) symbols = None"
    using assms(2) by (auto simp add: find_None_iff)
  obtain m st1 where r: "save_symbols cid fm symbols ([], st) = (m, st1)"
    by (cases "save_symbols cid fm symbols ([], st)")
  have "map_of (subscriptions st1) (getSubscriptionKey (fst s) (snd s)) = Some (symbol_sub cid fm s)"
    using save_symbols_registry [OF assms(3), of cid fm "([], st)"] r by simp
  then show ?thesis
    using assms(1,2) nf r
    by (auto simp add: subscribeMultiple_def sendSubscriptionRequest_keeps)
qed

lemma subscribeMultiple_queued:
  assumes "connectionState st \<noteq> CONNECTED"
    "\<not> (fm = DEPTH_20 \<and> ((\<exists>s \<in> set symbols. fst s \<noteq> NSE_CM) \<or> 50 < length symbols))"
  shows "pendingSubscriptions (snd (subscribeMultiple cid symbols fm ok st)) =
           pendingSubscriptions st @ map (symbol_sub cid fm) symbols"
proof -
  have nf: "fm = DEPTH_20 \<Longrightarrow> find (\<lambda>s. fst s \<noteq> NSE_CM) symbols = None"
    using assms(2) by (auto simp add: find_None_iff)
  have conn: "pendingSubscriptions (connect ok False x) = pendingSubscriptions x" for x
    by (simp add: connect_def Let_def)
  show ?thesis
    using assms nf by (auto simp add: subscribeMultiple_def Let_def conn)
qed

lemma emit_tick_targeted:
  "map_of (subscriptions st) (getSubscriptionKey (tick.exchangeType t) (tick.token t)) = Some sub \<Longrightarrow>
     emitted (emit_tick t st) =
       emitted st @ [(''tick'', TickArg t), (''tick:'' @ correlationId sub, TickArg t)]"
  by (simp add: emit_tick_def Let_def)


lemma show_int_1: "show_int 1 = ''1''"
  by code_simp

lemma show_int_2: "show_int 2 = ''2''"
  by code_simp

section \<open>Batching of the replayed subscriptions\<close>

lemma entries_of_simps [simp]:
  "entries_of [] = {#}"
  "entries_of ((ex, toks) # rest) = mset (map (Pair ex) toks) + entries_of rest"
  "entries_of (xs @ ys) = entries_of xs + entries_of ys"
  by (simp_all add: entries_of_def)

lemma count_tokens_simps [simp]:
  "count_tokens [] = 0"
  "count_tokens ((ex, toks) # rest) = length toks + count_tokens rest"
  "count_tokens (xs @ ys) = count_tokens xs + count_tokens ys"
  by (simp_all add: count_tokens_def)

lemma size_entries_of: "size (entries_of tokens) = count_tokens tokens"
  by (induction tokens) auto

lemma fill_batch_count:
  "t \<le> batchSize \<Longrightarrow> count_tokens (fst (fill_batch t tokens b)) \<le> count_tokens b + (batchSize - t)"
proof (induction t tokens b rule: fill_batch.induct)
  case (1 t b)
  then show ?case by (simp add: fill_batch.simps)
next
  case (2 t ex toks rest b)
  show ?case
  proof (cases "t < batchSize")
    case False
    then show ?thesis by (simp add: fill_batch.simps)
  next
    case True
    show ?thesis
    proof (cases "length toks + t \<le> batchSize")
      case fits: True
      with True 2(1) show ?thesis by (simp add: fill_batch.simps)
    next
      case nofit: False
      with True 2(2) show ?thesis by (simp add: fill_batch.simps)
    qed
  qed
qed

lemma fill_batch_entries:
  "entries_of (fst (fill_batch t tokens b)) + entries_of (snd (fill_batch t tokens b)) =
     entries_of b + entries_of tokens"
proof (induction t tokens b rule: fill_batch.induct)
  case (1 t b)
  then show ?case by (simp add: fill_batch.simps)
next
  case (2 t ex toks rest b)
  show ?case
  proof (cases "t < batchSize")
    case False
    then show ?thesis by (simp add: fill_batch.simps)
  next
    case True
    show ?thesis
    proof (cases "length toks + t \<le> batchSize")
      case fits: True
      with True 2(1) show ?thesis by (simp add: fill_batch.simps)
    next
      case nofit: False
      have split: "image_mset (Pair ex) (mset (take (batchSize - t) toks)) +
                   image_mset (Pair ex) (mset (drop (batchSize - t) toks)) =
                   image_mset (Pair ex) (mset toks)"
        by (metis append_take_drop_id image_mset_union mset_append)
      from nofit True 2(2) split show ?thesis
        by (simp add: fill_batch.simps [of t] del: batchSize_def)
    qed
  qed
qed

lemma mode_batches_count:
  "p \<in> set (mode_batches m k tokens) \<Longrightarrow> count_tokens (snd p) \<le> batchSize"
proof (induction m k tokens rule: mode_batches.induct)
  case (1 m k tokens)
  show ?case
  proof (cases "tokens = []")
    case True
    with 1(3) show ?thesis by (simp add: mode_batches.simps)
  next
    case False
    have bound: "count_tokens (fst (fill_batch 0 tokens [])) \<le> batchSize"
      using fill_batch_count [of 0 tokens "[]"] by simp
    show ?thesis
    proof (cases "fst (fill_batch 0 tokens []) \<noteq> []")
      case True
      with False 1(3) have "p = (''resubscribe-mode'' @ show_int m @ ''-'' @ show_int (int k),
                                 fst (fill_batch 0 tokens []))
                            \<or> p \<in> set (mode_batches m (k + 1) (snd (fill_batch 0 tokens [])))"
        by (subst (asm) mode_batches.simps) simp
      then show ?thesis
      proof
        assume "p = (''resubscribe-mode'' @ show_int m @ ''-'' @ show_int (int k),
                     fst (fill_batch 0 tokens []))"
        with bound show ?thesis by simp
      next
        assume "p \<in> set (mode_batches m (k + 1) (snd (fill_batch 0 tokens [])))"
        with 1(1) [OF False True] show ?thesis .
      qed
    next
      case empty: False
      with False 1(3) have "p \<in> set (mode_batches m k (snd (fill_batch 0 tokens [])))"
        by (subst (asm) mode_batches.simps) simp
      with 1(2) [OF False empty] show ?thesis .
    qed
  qed
qed

lemma mode_batches_entries:
  "sum_list (map (\<lambda>p. entries_of (snd p)) (mode_batches m k tokens)) = entries_of tokens"
proof (induction m k tokens rule: mode_batches.induct)
  case (1 m k tokens)
  show ?case
  proof (cases "tokens = []")
    case True
    then show ?thesis by (simp add: mode_batches.simps)
  next
    case False
    have parts: "entries_of (fst (fill_batch 0 tokens [])) + entries_of (snd (fill_batch 0 tokens []))
                   = entries_of tokens"
      using fill_batch_entries [of 0 tokens "[]"] by simp
    show ?thesis
    proof (cases "fst (fill_batch 0 tokens []) \<noteq> []")
      case True
      from 1(1) [OF False True] parts False True show ?thesis
        by (subst mode_batches.simps) simp
    next
      case empty: False
      from 1(2) [OF False empty] parts False empty show ?thesis
        by (subst mode_batches.simps) simp
    qed
  qed
qed

lemma depth20_chunks_length:
  "p \<in> set (depth20_chunks i toks) \<Longrightarrow> length (snd p) \<le> 50 \<and> snd p \<noteq> []"
proof (induction i toks rule: depth20_chunks.induct)
  case (1 i toks)
  show ?case
  proof (cases "i < length toks")
    case True
    with 1(2) have "p = (''resubscribe-depth20-'' @ show_int (int (i div 50)), take 50 (drop i toks))
                    \<or> p \<in> set (depth20_chunks (i + 50) toks)"
      by (subst (asm) depth20_chunks.simps) simp
    then show ?thesis
    proof
      assume "p = (''resubscribe-depth20-'' @ show_int (int (i div 50)), take 50 (drop i toks))"
      with True show ?thesis by simp
    next
      assume "p \<in> set (depth20_chunks (i + 50) toks)"
      with 1(1) [OF True] show ?thesis .
    qed
  next
    case False
    with 1(2) show ?thesis by (subst (asm) depth20_chunks.simps) simp
  qed
qed

lemma depth20_chunks_concat: "concat (map snd (depth20_chunks i toks)) = drop i toks"
proof (induction i toks rule: depth20_chunks.induct)
  case (1 i toks)
  show ?case
  proof (cases "i < length toks")
    case True
    have "take 50 (drop i toks) @ drop (i + 50) toks = drop i toks"
      by (metis add.commute append_take_drop_id drop_drop)
    with 1 [OF True] True show ?thesis
      by (subst depth20_chunks.simps) simp
  next
    case False
    then show ?thesis by (subst depth20_chunks.simps) simp
  qed
qed

section \<open>Grouping by feed mode and exchange\<close>

lemma push_group_entries: "entries_of (push_group k v m) = add_mset (k, v) (entries_of m)"
  by (induction m) auto

lemma push_group_keys: "fst ` set (push_group k v m) = insert k (fst ` set m)"
proof (induction m)
  case Nil
  show ?case by simp
next
  case (Cons p m)
  obtain k' vs where p: "p = (k', vs)" by (cases p)
  show ?case
  proof (cases "k' = k")
    case True
    then show ?thesis by (simp add: p)
  next
    case False
    with Cons show ?thesis by (simp add: p insert_commute)
  qed
qed

lemma push_group_distinct: "distinct (map fst m) \<Longrightarrow> distinct (map fst (push_group k v m))"
proof (induction m)
  case Nil
  then show ?case by simp
next
  case (Cons p m)
  obtain k' vs where p: "p = (k', vs)" by (cases p)
  have "set (map fst (push_group k v m)) = insert k (fst ` set m)"
    using push_group_keys [of k v m] by simp
  with Cons p show ?case by auto
qed

lemma nested_entries_simps [simp]:
  "nested_entries [] = {#}"
  "nested_entries ((m, exchangeMap) # rest) =
     image_mset (Pair m) (entries_of exchangeMap) + nested_entries rest"
  by (simp_all add: nested_entries_def)

lemma push_nested_entries:
  "nested_entries (push_nested m ex tok groups) = add_mset (m, ex, tok) (nested_entries groups)"
  by (induction groups) (auto simp add: push_group_entries)

lemma push_nested_ok:
  "groups_ok groups \<Longrightarrow> (m = DEPTH_20 \<longrightarrow> ex = NSE_CM) \<Longrightarrow> groups_ok (push_nested m ex tok groups)"
proof (induction groups)
  case Nil
  then show ?case by (simp add: groups_ok_def)
next
  case (Cons g groups)
  obtain m' em where g: "g = (m', em)" by (cases g)
  from Cons.prems(1) have tail: "groups_ok groups" and hd: "distinct (map fst em)"
    "m' = DEPTH_20 \<longrightarrow> fst ` set em \<subseteq> {NSE_CM}"
    by (simp_all add: groups_ok_def g)
  show ?case
  proof (cases "m' = m")
    case True
    with hd Cons.prems(2) tail show ?thesis
      by (simp add: g groups_ok_def push_group_distinct push_group_keys)
  next
    case False
    with Cons.IH [OF tail Cons.prems(2)] hd show ?thesis
      by (simp add: g groups_ok_def)
  qed
qed

lemma subscriptionsByMode_snoc:
  "subscriptionsByMode (reg @ [(k, sub)]) =
     push_nested (feedMode sub) (SubscriptionData.exchangeType sub) (SubscriptionData.token sub)
       (subscriptionsByMode reg)"
  by (simp add: subscriptionsByMode_def)

lemma subscriptionsByMode_entries: "nested_entries (subscriptionsByMode reg) = registry_entries reg"
proof (induction reg rule: rev_induct)
  case Nil
  then show ?case by (simp add: subscriptionsByMode_def registry_entries_def)
next
  case (snoc p reg)
  obtain k sub where p: "p = (k, sub)" by (cases p)
  from snoc show ?case
    by (simp add: p subscriptionsByMode_snoc push_nested_entries registry_entries_def)
qed

lemma subscriptionsByMode_ok:
  "depth20_nse_only (map snd reg) \<Longrightarrow> groups_ok (subscriptionsByMode reg)"
proof (induction reg rule: rev_induct)
  case Nil
  then show ?case by (simp add: subscriptionsByMode_def groups_ok_def)
next
  case (snoc p reg)
  obtain k sub where p: "p = (k, sub)" by (cases p)
  from snoc.prems have rest: "depth20_nse_only (map snd reg)"
    and this_one: "feedMode sub = DEPTH_20 \<longrightarrow> SubscriptionData.exchangeType sub = NSE_CM"
    by (simp_all add: depth20_nse_only_def p)
  from push_nested_ok [OF snoc.IH [OF rest] this_one] show ?case
    by (simp add: p subscriptionsByMode_snoc)
qed

section \<open>The requests of one feed-mode group\<close>

lemma single_key:
  "distinct (map fst em) \<Longrightarrow> fst ` set em \<subseteq> {k} \<Longrightarrow> em = [] \<or> (\<exists>v. em = [(k, v)])"
proof (cases em)
  case Nil
  then show ?thesis by simp
next
  case (Cons p rest)
  assume d: "distinct (map fst em)" and s: "fst ` set em \<subseteq> {k}"
  from s Cons have pk: "fst p = k" by auto
  have "rest = []"
  proof (cases rest)
    case Nil
    then show ?thesis .
  next
    case (Cons q rest')
    with s \<open>em = p # rest\<close> have "fst q = k" by auto
    with d pk Cons \<open>em = p # rest\<close> show ?thesis by auto
  qed
  with Cons pk show ?thesis by (cases p) auto
qed

lemma chunks_entries:
  "sum_list (map (\<lambda>p. entries_of (snd p)) (map (\<lambda>(batchId, batch). (batchId, [(k, batch)])) chunks)) =
     image_mset (Pair k) (mset (concat (map snd chunks)))"
  by (induction chunks) auto

lemma mode_requests_entries:
  assumes "distinct (map fst em)" "m = DEPTH_20 \<longrightarrow> fst ` set em \<subseteq> {NSE_CM}"
  shows "sum_list (map (\<lambda>p. entries_of (snd p)) (mode_requests (m, em))) = entries_of em"
proof (cases "m = DEPTH_20")
  case False
  then show ?thesis by (simp add: mode_requests_def mode_batches_entries)
next
  case True
  with assms single_key [of em NSE_CM] consider "em = []" | toks where "em = [(NSE_CM, toks)]"
    by blast
  then show ?thesis
  proof cases
    case 1
    with True show ?thesis by (simp add: mode_requests_def)
  next
    case 2
    show ?thesis
    proof (cases "50 < length toks")
      case long: True
      have "sum_list (map (\<lambda>p. entries_of (snd p))
               (map (\<lambda>(batchId, batch). (batchId, [(NSE_CM, batch)])) (depth20_chunks 0 toks))) =
            image_mset (Pair NSE_CM) (mset toks)"
        unfolding chunks_entries depth20_chunks_concat by simp
      with True 2 long show ?thesis by (simp add: mode_requests_def)
    next
      case short: False
      with True 2 show ?thesis by (cases toks) (simp_all add: mode_requests_def)
    qed
  qed
qed

lemma mode_requests_caps:
  assumes "p \<in> set (mode_requests (m, em))"
  shows "count_tokens (snd p) \<le> (if m = DEPTH_20 then 50 else 200) \<and>
         (m = DEPTH_20 \<longrightarrow> count_nse_cm (snd p) \<le> 50)"
proof (cases "m = DEPTH_20")
  case False
  with assms mode_batches_count [of p m 0 em] show ?thesis by (simp add: mode_requests_def)
next
  case True
  define toks where "toks = (case map_of em NSE_CM of Some toks \<Rightarrow> toks | None \<Rightarrow> [])"
  show ?thesis
  proof (cases "50 < length toks")
    case long: True
    with assms True obtain q where q: "q \<in> set (depth20_chunks 0 toks)" "p = (fst q, [(NSE_CM, snd q)])"
      by (auto simp add: mode_requests_def toks_def Let_def)
    from depth20_chunks_length [OF q(1)] q(2) True show ?thesis
      by (simp add: count_nse_cm_def)
  next
    case short: False
    with assms True have "p = (''resubscribe-depth20'', [(NSE_CM, toks)])"
      by (auto simp add: mode_requests_def toks_def Let_def split: if_splits)
    with short True show ?thesis by (simp add: count_nse_cm_def)
  qed
qed

section \<open>Sending the replayed requests\<close>

lemma sendSubscriptionRequest_sends:
  assumes "ws_open st = Some w" "\<not> (fm = DEPTH_20 \<and> 50 < count_nse_cm tokens)"
  shows "sent (sendSubscriptionRequest cid fm tokens act st) =
           sent st @ [(w, Request \<lparr>correlationID = cid, action = act, req_mode = fm,
                                   req_tokenList = tokens\<rparr>)]"
    and "ws_open (sendSubscriptionRequest cid fm tokens act st) = Some w"
proof -
  show "sent (sendSubscriptionRequest cid fm tokens act st) =
           sent st @ [(w, Request \<lparr>correlationID = cid, action = act, req_mode = fm,
                                   req_tokenList = tokens\<rparr>)]"
    using assms by (auto simp add: sendSubscriptionRequest_def Let_def)
  have "ws_open (sendSubscriptionRequest cid fm tokens act st) = ws_open st"
    by (rule ws_open_cong) (simp_all add: sendSubscriptionRequest_keeps)
  with assms(1) show "ws_open (sendSubscriptionRequest cid fm tokens act st) = Some w" by simp
qed

lemma send_all_Cons:
  "send_all m (p # reqs) st = send_all m reqs (sendSubscriptionRequest (fst p) m (snd p) SUBSCRIBE st)"
  by (simp add: send_all_def split: prod.splits)

lemma send_all_keeps:
  "subscriptions (send_all m reqs st) = subscriptions st \<and>
   pendingSubscriptions (send_all m reqs st) = pendingSubscriptions st \<and>
   connectionState (send_all m reqs st) = connectionState st"
proof (induction reqs arbitrary: st)
  case Nil
  show ?case by (simp add: send_all_def)
next
  case (Cons p reqs)
  show ?case
    using Cons [of "sendSubscriptionRequest (fst p) m (snd p) SUBSCRIBE st"]
    by (simp add: send_all_Cons sendSubscriptionRequest_keeps)
qed

lemma send_all_sends:
  assumes "ws_open st = Some w" "\<forall>p \<in> set reqs. \<not> (m = DEPTH_20 \<and> 50 < count_nse_cm (snd p))"
  shows "sent (send_all m reqs st) =
           sent st @ map (\<lambda>p. (w, Request \<lparr>correlationID = fst p, action = SUBSCRIBE, req_mode = m,
                                             req_tokenList = snd p\<rparr>)) reqs \<and>
         ws_open (send_all m reqs st) = Some w"
  using assms
proof (induction reqs arbitrary: st)
  case Nil
  then show ?case by (simp add: send_all_def)
next
  case (Cons p reqs)
  have ok: "\<not> (m = DEPTH_20 \<and> 50 < count_nse_cm (snd p))" using Cons.prems(2) by simp
  note one = sendSubscriptionRequest_sends [OF Cons.prems(1) ok, of "fst p" SUBSCRIBE]
  from Cons.prems(2) have rest: "\<forall>p \<in> set reqs. \<not> (m = DEPTH_20 \<and> 50 < count_nse_cm (snd p))"
    by simp
  from Cons.IH [OF one(2) rest] one(1) show ?case
    unfolding send_all_Cons by simp
qed


lemma resubscribe_mode_eq: "resubscribe_mode st g = send_all (fst g) (mode_requests g) st"
  by (simp add: resubscribe_mode_def)

lemma replay_groups_keep:
  "subscriptions (foldl resubscribe_mode st groups) = subscriptions st \<and>
   pendingSubscriptions (foldl resubscribe_mode st groups) = pendingSubscriptions st \<and>
   connectionState (foldl resubscribe_mode st groups) = connectionState st"
proof (induction groups arbitrary: st)
  case Nil
  show ?case by simp
next
  case (Cons g groups)
  show ?case
    using Cons [of "resubscribe_mode st g"] send_all_keeps [of "fst g" "mode_requests g" st]
    by (simp add: resubscribe_mode_eq)
qed

lemma replay_groups_send:
  assumes "ws_open st = Some w"
  shows "sent (foldl resubscribe_mode st groups) =
           sent st @ map (\<lambda>r. (w, Request r)) (concat (map group_requests groups)) \<and>
         ws_open (foldl resubscribe_mode st groups) = Some w"
  using assms
proof (induction groups arbitrary: st)
  case Nil
  then show ?case by simp
next
  case (Cons g groups)
  obtain m em where g: "g = (m, em)" by (cases g)
  have ok: "\<forall>p \<in> set (mode_requests g). \<not> (fst g = DEPTH_20 \<and> 50 < count_nse_cm (snd p))"
  proof
    fix p
    assume "p \<in> set (mode_requests g)"
    then have "p \<in> set (mode_requests (m, em))" by (simp add: g)
    from mode_requests_caps [OF this]
    show "\<not> (fst g = DEPTH_20 \<and> 50 < count_nse_cm (snd p))" by (auto simp add: g)
  qed
  note one = send_all_sends [OF Cons.prems ok]
  from one have op: "ws_open (resubscribe_mode st g) = Some w" by (simp add: resubscribe_mode_eq)
  from Cons.IH [OF op] one show ?case
    by (simp add: resubscribe_mode_eq group_requests_def o_def)
qed

lemma resubscribe_requests_eq:
  "resubscribe_requests reg = concat (map group_requests (subscriptionsByMode reg))"
  unfolding resubscribe_requests_def group_requests_def [abs_def] by (simp add: case_prod_unfold)

lemma resubscribe_keeps:
  "subscriptions (resubscribe st) = subscriptions st"
  "pendingSubscriptions (resubscribe st) = pendingSubscriptions st"
  "connectionState (resubscribe st) = connectionState st"
  using replay_groups_keep [of "log ''Resubscribing'' st" "subscriptionsByMode (subscriptions st)"]
  by (simp_all add: resubscribe_def)

lemma resubscribe_sends:
  assumes "ws_open st = Some w"
  shows "sent (resubscribe st) =
           sent st @ map (\<lambda>r. (w, Request r)) (resubscribe_requests (subscriptions st))"
proof (cases "subscriptions st = []")
  case True
  then show ?thesis
    by (simp add: resubscribe_def resubscribe_requests_eq subscriptionsByMode_def)
next
  case False
  have "ws_open (log ''Resubscribing'' st) = Some w" using assms by simp
  from replay_groups_send [OF this, of "subscriptionsByMode (subscriptions st)"] False
  show ?thesis by (simp add: resubscribe_def resubscribe_requests_eq)
qed

lemma group_requests_caps:
  assumes "r \<in> set (group_requests g)"
  shows "action r = SUBSCRIBE \<and> req_mode r = fst g \<and>
     count_tokens (req_tokenList r) \<le> (if req_mode r = DEPTH_20 then 50 else 200)"
proof -
  from assms obtain p where p: "p \<in> set (mode_requests (fst g, snd g))"
    and r: "r = \<lparr>correlationID = fst p, action = SUBSCRIBE, req_mode = fst g, req_tokenList = snd p\<rparr>"
    by (auto simp add: group_requests_def)
  from mode_requests_caps [OF p] r show ?thesis by simp
qed

lemma resubscribe_requests_caps:
  assumes "r \<in> set (resubscribe_requests reg)"
  shows "action r = SUBSCRIBE \<and>
     count_tokens (req_tokenList r) \<le> (if req_mode r = DEPTH_20 then 50 else 200)"
proof -
  from assms obtain g where "r \<in> set (group_requests g)"
    by (auto simp add: resubscribe_requests_eq)
  from group_requests_caps [OF this] show ?thesis by (auto split: if_splits)
qed

lemma requests_entries_of_pairs:
  "sum_list (map request_entries
       (map (\<lambda>p. \<lparr>correlationID = fst p, action = SUBSCRIBE, req_mode = m, req_tokenList = snd p\<rparr>) ps)) =
     image_mset (Pair m) (sum_list (map (\<lambda>p. entries_of (snd p)) ps))"
  by (induction ps) (simp_all add: request_entries_def)

lemma group_requests_entries:
  assumes "distinct (map fst em)" "m = DEPTH_20 \<longrightarrow> fst ` set em \<subseteq> {NSE_CM}"
  shows "sum_list (map request_entries (group_requests (m, em))) = image_mset (Pair m) (entries_of em)"
  using requests_entries_of_pairs [of m "mode_requests (m, em)"] mode_requests_entries [OF assms]
  by (simp add: group_requests_def)

lemma groups_requests_entries:
  "groups_ok groups \<Longrightarrow>
     sum_list (map request_entries (concat (map group_requests groups))) = nested_entries groups"
proof (induction groups)
  case Nil
  show ?case by simp
next
  case (Cons g groups)
  obtain m em where g: "g = (m, em)" by (cases g)
  from Cons.prems have tail: "groups_ok groups" and hd: "distinct (map fst em)"
    "m = DEPTH_20 \<longrightarrow> fst ` set em \<subseteq> {NSE_CM}"
    by (simp_all add: groups_ok_def g)
  from Cons.IH [OF tail] group_requests_entries [OF hd] show ?case by (simp add: g)
qed

lemma resubscribe_requests_entries:
  "depth20_nse_only (map snd reg) \<Longrightarrow>
     sum_list (map request_entries (resubscribe_requests reg)) = registry_entries reg"
  using groups_requests_entries [OF subscriptionsByMode_ok, of reg]
  by (simp add: resubscribe_requests_eq subscriptionsByMode_entries)

section \<open>Replay after a reconnect\<close>

lemma processPending_empty:
  "pendingSubscriptions st = [] \<Longrightarrow> processPendingSubscriptions now st = st"
  by (simp add: processPendingSubscriptions_def)

lemma reconnect_keeps_registry:
  "subscriptions (on_close i code reason st) = subscriptions st"
  "subscriptions (reconnect_timeout ok st) = subscriptions st"
  "subscriptions (resubscribe st) = subscriptions st"
  by (simp_all add: on_close_def attemptReconnect_def clearHeartbeat_def set_readyState_def
        reconnect_timeout_def connect_def resubscribe_keeps Let_def)

lemma reconnected_replays:
  assumes "reconnectAttempts st < maxReconnectAttempts" "pendingSubscriptions st = []"
  shows "sent (reconnected i code reason now st) =
           sent st @ map (\<lambda>r. (length (sockets st), Request r)) (resubscribe_requests (subscriptions st))"
    and "subscriptions (reconnected i code reason now st) = subscriptions st"
proof -
  define st1 where "st1 = on_close i code reason st"
  have s1: "subscriptions st1 = subscriptions st" "sent st1 = sent st"
    "pendingSubscriptions st1 = []" "length (sockets st1) = length (sockets st)"
    "connectionState st1 = DISCONNECTED"
    using assms
    by (simp_all add: st1_def on_close_def attemptReconnect_def Let_def clearHeartbeat_def
          set_readyState_def)
  define st2 where "st2 = reconnect_timeout True st1"
  have s2: "subscriptions st2 = subscriptions st" "sent st2 = sent st"
    "pendingSubscriptions st2 = []" "ws st2 = Some (length (sockets st))"
    "sockets st2 = sockets st1 @ [\<lparr>readyState = WS_CONNECTING, then_resubscribe = True\<rparr>]"
    using s1 by (simp_all add: st2_def reconnect_timeout_def connect_def Let_def)
  define X where "X = emit ''connected'' NoArgs
      (setupHeartbeat ((log ''WebSocket connected''
         ((set_readyState (length (sockets st)) WS_OPEN st2)\<lparr>connectionState := CONNECTED\<rparr>))
           \<lparr>reconnectAttempts := 0\<rparr>))"
  have x: "subscriptions X = subscriptions st" "sent X = sent st"
    "ws_open X = Some (length (sockets st))"
    using s1 s2
    by (simp_all add: X_def setupHeartbeat_def clearHeartbeat_def set_readyState_def ws_open_def
          log_def emit_def nth_append list_update_append)
  have "reconnected i code reason now st = resubscribe X"
    using s1 s2
    by (simp add: reconnected_def st2_def [symmetric] st1_def [symmetric] on_open_def X_def Let_def
          processPending_empty setupHeartbeat_def clearHeartbeat_def set_readyState_def
          nth_append list_update_append)
  with x resubscribe_sends [of X "length (sockets st)"] resubscribe_keeps(1) [of X]
  show "sent (reconnected i code reason now st) =
           sent st @ map (\<lambda>r. (length (sockets st), Request r)) (resubscribe_requests (subscriptions st))"
    and "subscriptions (reconnected i code reason now st) = subscriptions st"
    by simp_all
qed

text \<open>
  C5. Take a client with fewer than five failed reconnect attempts, an empty pending
  queue and a registry whose DEPTH_20 entries are all NSE_CM (what the validation of
  \<open>subscribe\<close> and \<open>subscribeMultiple\<close> ensures). After an unexpected closure, the
  reconnect timeout and the opening of the new socket, the frames sent on the new socket
  are exactly the replay requests of the registry. Together these requests carry every
  (mode, exchange, token) of the registry once; each is a subscribe request for one feed
  mode with its tokens grouped by exchange, of at most 50 tokens for DEPTH_20 and at
  most 200 otherwise. The registry is the same as before; an explicit \<open>disconnect()\<close> on
  a client that holds a socket empties it.
\<close>

theorem C5_replay_on_reconnect:
  assumes "reconnectAttempts st < maxReconnectAttempts" "pendingSubscriptions st = []"
    "depth20_nse_only (map snd (subscriptions st))"
  shows
   "sent (reconnected i code reason now st) =
      sent st @ map (\<lambda>r. (length (sockets st), Request r)) (resubscribe_requests (subscriptions st)) \<and>
    sum_list (map request_entries (resubscribe_requests (subscriptions st))) =
      registry_entries (subscriptions st) \<and>
    (\<forall>r \<in> set (resubscribe_requests (subscriptions st)).
       action r = SUBSCRIBE \<and>
       count_tokens (req_tokenList r) \<le> (if req_mode r = DEPTH_20 then 50 else 200)) \<and>
    subscriptions (reconnected i code reason now st) = subscriptions st \<and>
    (connectionState st \<noteq> DISCONNECTED \<and> ws st = Some w \<longrightarrow> subscriptions (disconnect st) = [])"
  using reconnected_replays [OF assms(1,2), of i code reason now]
    resubscribe_requests_entries [OF assms(3)] resubscribe_requests_caps [of _ "subscriptions st"]
    disconnect_socket [of st w]
  by blast

lemma show_int_small: "show_int 0 = ''0''" "show_int 3 = ''3''"
  by code_simp+

lemma subscribed_client_eq:
  "subscribed_client =
     connected_client
       \<lparr> subscriptions :=
           [(''1:3045'', \<lparr>correlationId = ''b-1-3045'', exchangeType = NSE_CM, token = ''3045'',
                          feedMode = LTP\<rparr>),
            (''3:500325'', \<lparr>correlationId = ''b-3-500325'', exchangeType = BSE_CM,
                            token = ''500325'', feedMode = LTP\<rparr>)],
         sent := [(0, Request \<lparr>correlationID = ''b'', action = SUBSCRIBE, req_mode = LTP,
                               req_tokenList = [(NSE_CM, [''3045'']), (BSE_CM, [''500325''])]\<rparr>)] \<rparr>"
  using show_int_1 show_int_small
  by (simp add: subscribed_client_def subscribeMultiple_def save_symbols_def symbol_sub_def
        symbol_id_def getSubscriptionKey_def sendSubscriptionRequest_def ws_open_def
        connected_client_eq log_def Let_def)

lemma subscribed_client_requests:
  "resubscribe_requests (subscriptions subscribed_client) =
     [\<lparr>correlationID = ''resubscribe-mode1-0'', action = SUBSCRIBE, req_mode = LTP,
       req_tokenList = [(NSE_CM, [''3045'']), (BSE_CM, [''500325''])]\<rparr>]"
  using show_int_1 show_int_small
  by (simp add: subscribed_client_eq resubscribe_requests_def subscriptionsByMode_def
        mode_requests_def mode_batches.simps fill_batch.simps)

theorem C5_replay_on_reconnect_witness:
  "sent (reconnected 0 1006 [] 0 subscribed_client) =
     sent subscribed_client @
       [(1, Request \<lparr>correlationID = ''resubscribe-mode1-0'', action = SUBSCRIBE, req_mode = LTP,
                     req_tokenList = [(NSE_CM, [''3045'']), (BSE_CM, [''500325''])]\<rparr>)] \<and>
   subscriptions (reconnected 0 1006 [] 0 subscribed_client) = subscriptions subscribed_client \<and>
   subscriptions (disconnect subscribed_client) = []"
proof -
  have a: "reconnectAttempts subscribed_client < maxReconnectAttempts"
    "pendingSubscriptions subscribed_client = []"
    "length (sockets subscribed_client) = 1"
    "connectionState subscribed_client \<noteq> DISCONNECTED" "ws subscribed_client = Some 0"
    by (simp_all add: subscribed_client_eq connected_client_eq)
  have b: "depth20_nse_only (map snd (subscriptions subscribed_client))"
    by (simp add: subscribed_client_eq depth20_nse_only_def)
  show ?thesis
    using C5_replay_on_reconnect [OF a(1,2) b, of 0 1006 "[]" 0 0] a(3,4,5)
      subscribed_client_requests
    by simp
qed

section \<open>Flushing the pending queue\<close>

lemma push_group_nonempty:
  "\<forall>g \<in> set m. snd g \<noteq> [] \<Longrightarrow> \<forall>g \<in> set (push_group k v m). snd g \<noteq> []"
proof (induction m)
  case Nil
  show ?case by simp
next
  case (Cons p m)
  obtain k' vs where p: "p = (k', vs)" by (cases p)
  from Cons show ?case by (cases "k' = k") (simp_all add: p)
qed

lemma push_group_keyed:
  "\<forall>g \<in> set m. \<forall>x \<in> set (snd g). f x = fst g \<Longrightarrow> f v = k \<Longrightarrow>
     \<forall>g \<in> set (push_group k v m). \<forall>x \<in> set (snd g). f x = fst g"
proof (induction m)
  case Nil
  then show ?case by simp
next
  case (Cons p m)
  obtain k' vs where p: "p = (k', vs)" by (cases p)
  from Cons show ?case by (cases "k' = k") (simp_all add: p)
qed

lemma push_group_values:
  "mset (concat (map snd (push_group k v m))) = add_mset v (mset (concat (map snd m)))"
  by (induction m) auto

lemma group_by_mode_snoc:
  "group_by_mode (q @ [sub]) = push_group (show_int (feedMode sub)) sub (group_by_mode q)"
  by (simp add: group_by_mode_def)

lemma group_by_mode_props:
  "(\<forall>g \<in> set (group_by_mode q). snd g \<noteq> []) \<and>
   (\<forall>g \<in> set (group_by_mode q). \<forall>x \<in> set (snd g). show_int (feedMode x) = fst g) \<and>
   distinct (map fst (group_by_mode q)) \<and>
   mset (concat (map snd (group_by_mode q))) = mset q"
proof (induction q rule: rev_induct)
  case Nil
  show ?case by (simp add: group_by_mode_def)
next
  case (snoc sub q)
  let ?G = "group_by_mode q" and ?k = "show_int (feedMode sub)"
  from snoc have a: "\<forall>g \<in> set ?G. snd g \<noteq> []"
    and b: "\<forall>g \<in> set ?G. \<forall>x \<in> set (snd g). show_int (feedMode x) = fst g"
    and c: "distinct (map fst ?G)"
    and d: "mset (concat (map snd ?G)) = mset q"
    by blast+
  have a': "\<forall>g \<in> set (push_group ?k sub ?G). snd g \<noteq> []"
    by (rule push_group_nonempty [OF a])
  have b': "\<forall>g \<in> set (push_group ?k sub ?G). \<forall>x \<in> set (snd g). show_int (feedMode x) = fst g"
    by (rule push_group_keyed [OF b refl])
  have c': "distinct (map fst (push_group ?k sub ?G))"
    by (rule push_group_distinct [OF c])
  have d': "mset (concat (map snd (push_group ?k sub ?G))) = mset (q @ [sub])"
    unfolding push_group_values d by simp
  from a' b' c' d' show ?case unfolding group_by_mode_snoc by blast
qed

lemma save_and_group_eq:
  "save_and_group subs (m, st) =
     (foldl (\<lambda>m sub. push_group (SubscriptionData.exchangeType sub) (SubscriptionData.token sub) m) m subs,
      st\<lparr>subscriptions := record_all subs (subscriptions st)\<rparr>)"
proof (induction subs arbitrary: m st)
  case Nil
  show ?case by (simp add: save_and_group_def record_all_def)
next
  case (Cons sub subs)
  have step: "save_and_group (sub # subs) (m, st) =
      save_and_group subs
        (push_group (SubscriptionData.exchangeType sub) (SubscriptionData.token sub) m,
         st\<lparr>subscriptions := AList.update (sub_key sub) sub (subscriptions st)\<rparr>)"
    by (simp add: save_and_group_def sub_key_def)
  show ?case unfolding step Cons by (simp add: record_all_def)
qed

lemma process_group_eq:
  "snd g \<noteq> [] \<Longrightarrow>
     process_group now st g =
       sendSubscriptionRequest (correlationID (group_request now g)) (req_mode (group_request now g))
         (req_tokenList (group_request now g)) SUBSCRIBE
         (st\<lparr>subscriptions := record_all (snd g) (subscriptions st)\<rparr>)"
  by (cases g; cases "snd g")
     (simp_all add: process_group_def save_and_group_eq group_request_def exchange_tokens_def)

lemma process_group_effect:
  assumes "snd g \<noteq> []" "ws_open st = Some w"
  shows "sent (process_group now st g) =
           sent st @ (if accepted (group_request now g) then [(w, Request (group_request now g))] else [])"
    and "subscriptions (process_group now st g) = record_all (snd g) (subscriptions st)"
    and "pendingSubscriptions (process_group now st g) = pendingSubscriptions st"
    and "ws_open (process_group now st g) = Some w"
    and "connectionState (process_group now st g) = connectionState st"
proof -
  let ?st1 = "st\<lparr>subscriptions := record_all (snd g) (subscriptions st)\<rparr>"
  have op: "ws_open ?st1 = Some w" using assms(2) by simp
  have act: "action (group_request now g) = SUBSCRIBE" by (simp add: group_request_def)
  show "sent (process_group now st g) =
           sent st @ (if accepted (group_request now g) then [(w, Request (group_request now g))] else [])"
    using op act
    by (auto simp add: process_group_eq [OF assms(1)] sendSubscriptionRequest_def accepted_def
          Let_def group_request_def)
  show "subscriptions (process_group now st g) = record_all (snd g) (subscriptions st)"
    by (simp add: process_group_eq [OF assms(1)] sendSubscriptionRequest_keeps)
  show "pendingSubscriptions (process_group now st g) = pendingSubscriptions st"
    by (simp add: process_group_eq [OF assms(1)] sendSubscriptionRequest_keeps)
  show "connectionState (process_group now st g) = connectionState st"
    by (simp add: process_group_eq [OF assms(1)] sendSubscriptionRequest_keeps)
  have "ws_open (process_group now st g) = ws_open ?st1"
    unfolding process_group_eq [OF assms(1)]
    by (rule ws_open_cong) (simp_all add: sendSubscriptionRequest_keeps)
  with op show "ws_open (process_group now st g) = Some w" by simp
qed

lemma record_all_append: "record_all (xs @ ys) reg = record_all ys (record_all xs reg)"
  by (simp add: record_all_def)

lemma process_groups_effect:
  assumes "\<forall>g \<in> set groups. snd g \<noteq> []" "ws_open st = Some w"
  shows "sent (foldl (process_group now) st groups) =
           sent st @ map (\<lambda>r. (w, Request r)) (filter accepted (map (group_request now) groups)) \<and>
         subscriptions (foldl (process_group now) st groups) =
           record_all (concat (map snd groups)) (subscriptions st) \<and>
         pendingSubscriptions (foldl (process_group now) st groups) = pendingSubscriptions st \<and>
         connectionState (foldl (process_group now) st groups) = connectionState st"
  using assms
proof (induction groups arbitrary: st)
  case Nil
  show ?case by (simp add: record_all_def)
next
  case (Cons g groups)
  from Cons.prems have g: "snd g \<noteq> []" and rest: "\<forall>g \<in> set groups. snd g \<noteq> []" by simp_all
  note e = process_group_effect [OF g Cons.prems(2), of now]
  from Cons.IH [OF rest e(4)] e(1,2,3,5) show ?case
    by (simp add: record_all_append)
qed










text \<open>On a socket created by the reconnect timer the flush is followed by the replay of
  the registry, which by then holds the flushed entries.\<close>

lemma process_groups_socket:
  "\<forall>g \<in> set groups. snd g \<noteq> [] \<Longrightarrow>
     ws (foldl (process_group now) st groups) = ws st \<and>
     sockets (foldl (process_group now) st groups) = sockets st"
proof (induction groups arbitrary: st)
  case Nil
  show ?case by simp
next
  case (Cons g groups)
  from Cons.prems have g: "snd g \<noteq> []" and rest: "\<forall>g \<in> set groups. snd g \<noteq> []" by simp_all
  from Cons.IH [OF rest, of "process_group now st g"] show ?case
    by (simp add: process_group_eq [OF g] sendSubscriptionRequest_keeps)
qed

lemma on_open_flush_then_replay:
  assumes "ws st = Some i" "socket_state st i = Some WS_CONNECTING"
    "then_resubscribe (sockets st ! i)"
  shows "sent (on_open i now st) =
           sent st @
             map (\<lambda>r. (i, Request r))
               (filter accepted (pending_requests now (pendingSubscriptions st)) @
                resubscribe_requests (subscriptions (on_open i now st)))"
proof -
  define st1 where "st1 = setupHeartbeat ((log ''WebSocket connected''
      ((set_readyState i WS_OPEN st)\<lparr>connectionState := CONNECTED\<rparr>))\<lparr>reconnectAttempts := 0\<rparr>)"
  from assms(2) have i: "i < length (sockets st)"
    by (simp add: socket_state_def split: if_splits)
  have s1: "ws_open st1 = Some i" "pendingSubscriptions st1 = pendingSubscriptions st"
    "sent st1 = sent st"
    using assms(1) i
    by (simp_all add: st1_def setupHeartbeat_def clearHeartbeat_def set_readyState_def ws_open_def
          log_def)
  define X where "X = emit ''connected'' NoArgs (processPendingSubscriptions now st1)"
  have open_eq: "on_open i now st = resubscribe X"
    using assms(3) i by (simp add: on_open_def st1_def X_def Let_def)
  let ?q = "pendingSubscriptions st"
  have flush: "sent (processPendingSubscriptions now st1) =
        sent st @ map (\<lambda>r. (i, Request r)) (filter accepted (pending_requests now ?q)) \<and>
      ws_open (processPendingSubscriptions now st1) = Some i"
  proof (cases "?q = []")
    case True
    with s1 show ?thesis
      by (simp add: processPendingSubscriptions_def pending_requests_def group_by_mode_def)
  next
    case False
    let ?L = "log ''Processing pending subscriptions'' st1"
    have op: "ws_open ?L = Some i" using s1 by simp
    have ne: "\<forall>g \<in> set (group_by_mode ?q). snd g \<noteq> []" using group_by_mode_props [of ?q] by blast
    have "ws_open ((foldl (process_group now) ?L (group_by_mode ?q))\<lparr>pendingSubscriptions := []\<rparr>) =
            ws_open ?L"
      by (rule ws_open_cong) (simp_all add: process_groups_socket [OF ne])
    with process_groups_effect [OF ne op, of now] False s1 op show ?thesis
      by (simp add: processPendingSubscriptions_def Let_def pending_requests_def)
  qed
  then have x: "sent X = sent st @ map (\<lambda>r. (i, Request r)) (filter accepted (pending_requests now ?q))"
    "ws_open X = Some i"
    by (simp_all add: X_def)
  from resubscribe_sends [OF x(2)] x(1) resubscribe_keeps(1) [of X] show ?thesis
    by (simp add: open_eq)
qed


section \<open>Queued subscriptions: the claim and its exception\<close>





















section \<open>The registry after a flush\<close>

lemma process_group_registry:
  "snd g \<noteq> [] \<Longrightarrow>
     subscriptions (process_group now st g) = record_all (snd g) (subscriptions st)"
  by (simp add: process_group_eq sendSubscriptionRequest_keeps)

lemma process_groups_registry:
  "\<forall>g \<in> set groups. snd g \<noteq> [] \<Longrightarrow>
     subscriptions (foldl (process_group now) st groups) =
       record_all (concat (map snd groups)) (subscriptions st)"
proof (induction groups arbitrary: st)
  case Nil
  show ?case by (simp add: record_all_def)
next
  case (Cons g groups)
  from Cons.prems have g: "snd g \<noteq> []" and rest: "\<forall>g \<in> set groups. snd g \<noteq> []" by simp_all
  from Cons.IH [OF rest, of "process_group now st g"] process_group_registry [OF g, of now st]
  show ?case by (simp add: record_all_append)
qed

lemma flush_registry:
  "subscriptions (processPendingSubscriptions now st) =
     record_all (concat (map snd (group_by_mode (pendingSubscriptions st)))) (subscriptions st)"
proof (cases "pendingSubscriptions st = []")
  case True
  then show ?thesis
    by (simp add: processPendingSubscriptions_def group_by_mode_def record_all_def)
next
  case False
  have ne: "\<forall>g \<in> set (group_by_mode (pendingSubscriptions st)). snd g \<noteq> []"
    using group_by_mode_props [of "pendingSubscriptions st"] by blast
  have l: "pendingSubscriptions (log m st) = pendingSubscriptions st"
    "subscriptions (log m st) = subscriptions st" for m
    by (simp_all add: log_def)
  from process_groups_registry [OF ne, of now "log ''Processing pending subscriptions'' st"] False
  show ?thesis
    by (simp add: processPendingSubscriptions_def Let_def l)
qed

lemma on_open_registry:
  "subscriptions (on_open i now st) =
     record_all (concat (map snd (group_by_mode (pendingSubscriptions st)))) (subscriptions st)"
proof -
  define st2 where "st2 = setupHeartbeat ((log ''WebSocket connected''
      ((set_readyState i WS_OPEN st)\<lparr>connectionState := CONNECTED\<rparr>))\<lparr>reconnectAttempts := 0\<rparr>)"
  have s2: "pendingSubscriptions st2 = pendingSubscriptions st" "subscriptions st2 = subscriptions st"
    by (simp_all add: st2_def setupHeartbeat_def clearHeartbeat_def set_readyState_def log_def)
  have "subscriptions (on_open i now st) = subscriptions (processPendingSubscriptions now st2)"
    by (simp add: on_open_def Let_def st2_def resubscribe_keeps emit_def)
  then show ?thesis by (simp add: flush_registry s2)
qed

lemma record_all_key:
  "map_of (record_all xs reg) k =
     (if filter (\<lambda>e. sub_key e = k) xs = [] then map_of reg k
      else Some (last (filter (\<lambda>e. sub_key e = k) xs)))"
  by (induction xs rule: rev_induct) (simp_all add: record_all_def update_conv')

lemma push_group_filter_other:
  "\<not> P v \<Longrightarrow> filter P (concat (map snd (push_group k v m))) = filter P (concat (map snd m))"
  by (induction m) auto

lemma push_group_filter_last:
  assumes "P v" "distinct (map fst m)"
    "\<forall>g \<in> set m. fst g \<noteq> k \<longrightarrow> (\<forall>x \<in> set (snd g). \<not> P x)"
  shows "filter P (concat (map snd (push_group k v m))) = filter P (concat (map snd m)) @ [v]"
  using assms
proof (induction m)
  case Nil
  then show ?case by simp
next
  case (Cons p m)
  obtain k' vs where p: "p = (k', vs)" by (cases p)
  show ?case
  proof (cases "k' = k")
    case True
    with Cons.prems(2) p have "\<forall>g \<in> set m. fst g \<noteq> k" by auto
    with Cons.prems(3) have "\<forall>g \<in> set m. \<forall>x \<in> set (snd g). \<not> P x" by simp
    then have "filter P (concat (map snd m)) = []" by (induction m) auto
    with True Cons.prems(1) show ?thesis by (simp add: p)
  next
    case False
    with Cons.prems p have "\<forall>x \<in> set vs. \<not> P x" by simp
    then have "filter P vs = []" by (induction vs) auto
    moreover from Cons.prems p
    have "filter P (concat (map snd (push_group k v m))) = filter P (concat (map snd m)) @ [v]"
      by (intro Cons.IH) simp_all
    ultimately show ?thesis using False by (simp add: p)
  qed
qed

text \<open>Entries that all go to one feed-mode group are flushed in the order of the queue.\<close>

lemma flush_order_filter:
  "\<forall>e \<in> set q. P e \<longrightarrow> feedMode e = fm \<Longrightarrow>
     filter P (concat (map snd (group_by_mode q))) = filter P q"
proof (induction q rule: rev_induct)
  case Nil
  show ?case by (simp add: group_by_mode_def)
next
  case (snoc e q)
  let ?G = "group_by_mode q"
  from snoc have IH: "filter P (concat (map snd ?G)) = filter P q" by simp
  show ?case
  proof (cases "P e")
    case False
    then show ?thesis by (simp add: group_by_mode_snoc push_group_filter_other IH)
  next
    case True
    with snoc.prems have m: "feedMode e = fm" by simp
    have d: "distinct (map fst ?G)" using group_by_mode_props [of q] by blast
    have keyed: "\<forall>g \<in> set ?G. \<forall>x \<in> set (snd g). show_int (feedMode x) = fst g"
      using group_by_mode_props [of q] by blast
    have "mset (concat (map snd ?G)) = mset q" using group_by_mode_props [of q] by blast
    then have same: "set (concat (map snd ?G)) = set q" by (rule mset_eq_setD)
    have other: "\<forall>g \<in> set ?G. fst g \<noteq> show_int fm \<longrightarrow> (\<forall>x \<in> set (snd g). \<not> P x)"
    proof (intro ballI impI)
      fix g x
      assume g: "g \<in> set ?G" and k: "fst g \<noteq> show_int fm" and x: "x \<in> set (snd g)"
      from g x have "x \<in> set (concat (map snd ?G))" by auto
      with same have xq: "x \<in> set q" by simp
      from keyed g x have "show_int (feedMode x) = fst g" by blast
      with k have "feedMode x \<noteq> fm" by auto
      with snoc.prems xq show "\<not> P x" by auto
    qed
    from push_group_filter_last [OF True d other] True show ?thesis
      by (simp add: group_by_mode_snoc m IH)
  qed
qed

lemma flushed_batch_entry:
  assumes "s \<in> set symbols"
    "\<forall>e \<in> set q. sub_key e = getSubscriptionKey (fst s) (snd s) \<longrightarrow> feedMode e = fm"
  shows "map_of (record_all (concat (map snd (group_by_mode (q @ map (symbol_sub cid fm) symbols)))) reg)
           (getSubscriptionKey (fst s) (snd s)) = Some (symbol_sub cid fm s)"
proof -
  let ?k = "getSubscriptionKey (fst s) (snd s)"
  let ?P = "\<lambda>e. sub_key e = ?k"
  let ?batch = "map (symbol_sub cid fm) symbols"
  have key: "sub_key (symbol_sub cid fm s') = ?k \<longleftrightarrow> s' = s" for s'
    by (simp add: sub_key_def symbol_sub_def symbol_key_inj)
  have mode: "\<forall>e \<in> set (q @ ?batch). ?P e \<longrightarrow> feedMode e = fm"
    using assms(2) by (auto simp add: symbol_sub_def)
  have f: "filter ?P (concat (map snd (group_by_mode (q @ ?batch)))) = filter ?P q @ filter ?P ?batch"
    using flush_order_filter [of "q @ ?batch" ?P fm, OF mode] by simp
  have mem: "symbol_sub cid fm s \<in> set (filter ?P ?batch)" using assms(1) key by auto
  have ne: "filter ?P ?batch \<noteq> []" using mem by (metis empty_iff empty_set)
  then have "last (filter ?P ?batch) \<in> set (filter ?P ?batch)" by (rule last_in_set)
  then have l: "last (filter ?P ?batch) = symbol_sub cid fm s" using key by auto
  show ?thesis using ne l by (simp add: record_all_key f)
qed

lemma subscribeMultiple_flushed_registry:
  assumes "connectionState st \<noteq> CONNECTED"
    "\<not> (fm = DEPTH_20 \<and> ((\<exists>s \<in> set symbols. fst s \<noteq> NSE_CM) \<or> 50 < length symbols))"
    "s \<in> set symbols"
    "\<forall>e \<in> set (pendingSubscriptions st).
       sub_key e = getSubscriptionKey (fst s) (snd s) \<longrightarrow> feedMode e = fm"
  shows "map_of (subscriptions (on_open i now (snd (subscribeMultiple cid symbols fm ok st))))
           (getSubscriptionKey (fst s) (snd s)) = Some (symbol_sub cid fm s)"
  unfolding on_open_registry subscribeMultiple_queued [OF assms(1,2)]
  by (rule flushed_batch_entry [OF assms(3,4)])

section \<open>Batch subscriptions in the queue: the claim and its exception\<close>

lemma displaced_client_eq:
  "displaced_client =
     (new_client False)
       \<lparr> ws := Some 0, connectionState := CONNECTING,
         pendingSubscriptions :=
           [\<lparr>correlationId = ''z'', exchangeType = NSE_CM, token = ''1594'', feedMode = LTP\<rparr>,
            \<lparr>correlationId = ''x'', exchangeType = NSE_CM, token = ''3045'', feedMode = QUOTE\<rparr>,
            \<lparr>correlationId = ''batch-1-3045'', exchangeType = NSE_CM, token = ''3045'',
              feedMode = LTP\<rparr>],
         sockets := [\<lparr>readyState = WS_CONNECTING, then_resubscribe = False\<rparr>] \<rparr>"
  using show_int_1
  by (simp add: displaced_client_def subscribe_def subscribeMultiple_def connect_def new_client_def
        log_def Let_def symbol_sub_def symbol_id_def)

lemma displaced_client_run:
  "run (new_client False)
     [Call_subscribe ''z'' NSE_CM ''1594'' LTP True,
      Call_subscribe ''x'' NSE_CM ''3045'' QUOTE True,
      Call_subscribeMultiple ''batch'' [(NSE_CM, ''3045'')] LTP True] = Some displaced_client"
  by (simp add: displaced_client_def)

lemma displaced_client_opened:
  "emitted (on_open 0 0 displaced_client) = [(''connected'', NoArgs)]"
  "sockets (on_open 0 0 displaced_client) = [\<lparr>readyState = WS_OPEN, then_resubscribe = False\<rparr>]"
  "map_of (subscriptions (on_open 0 0 displaced_client)) (getSubscriptionKey NSE_CM ''3045'') =
     Some \<lparr>correlationId = ''x'', exchangeType = NSE_CM, token = ''3045'', feedMode = QUOTE\<rparr>"
  using show_int_1 show_int_2 show_int_small
  by (simp_all add: displaced_client_eq on_open_def set_readyState_def log_def setupHeartbeat_def
        clearHeartbeat_def processPendingSubscriptions_def group_by_mode_def process_group_def
        save_and_group_def sendSubscriptionRequest_def ws_open_def emit_def Let_def new_client_def
        count_nse_cm_def getSubscriptionKey_def)

text \<open>
  C10, as stated, fails on the queued path. Before any connection the caller subscribes
  to token 1594 in LTP mode (id \<open>z\<close>) and to token 3045 in QUOTE mode (id \<open>x\<close>), then
  calls \<open>subscribeMultiple('batch', [3045 of NSE_CM], LTP)\<close>: the symbol is queued under
  \<open>batch-1-3045\<close>. When the socket opens, the flush records the LTP group (\<open>z\<close> and the
  batch entry) first and the QUOTE group (\<open>x\<close>) after it, so the registry keeps \<open>x\<close> for
  the key \<open>1:3045\<close>, and the next tick of token 3045 is emitted on \<open>tick:x\<close>, not on
  \<open>tick:batch-1-3045\<close>.
\<close>

theorem C10_displaced_batch_entry_counterexample:
  "map_option pendingSubscriptions
     (run (new_client False)
        [Call_subscribe ''z'' NSE_CM ''1594'' LTP True,
         Call_subscribe ''x'' NSE_CM ''3045'' QUOTE True,
         Call_subscribeMultiple ''batch'' [(NSE_CM, ''3045'')] LTP True]) =
     Some [\<lparr>correlationId = ''z'', exchangeType = NSE_CM, token = ''1594'', feedMode = LTP\<rparr>,
           \<lparr>correlationId = ''x'', exchangeType = NSE_CM, token = ''3045'', feedMode = QUOTE\<rparr>,
           \<lparr>correlationId = ''batch-1-3045'', exchangeType = NSE_CM, token = ''3045'',
             feedMode = LTP\<rparr>] \<and>
   map_option emitted
     (run (new_client False)
        [Call_subscribe ''z'' NSE_CM ''1594'' LTP True,
         Call_subscribe ''x'' NSE_CM ''3045'' QUOTE True,
         Call_subscribeMultiple ''batch'' [(NSE_CM, ''3045'')] LTP True,
         Socket_open 0 0,
         Socket_message 0 (Binary ltp_frame)]) =
     Some [(''connected'', NoArgs), (''tick'', TickArg ltp_tick), (''tick:x'', TickArg ltp_tick)]"
proof -
  let ?calls = "[Call_subscribe ''z'' NSE_CM ''1594'' LTP True,
                 Call_subscribe ''x'' NSE_CM ''3045'' QUOTE True,
                 Call_subscribeMultiple ''batch'' [(NSE_CM, ''3045'')] LTP True]"
  let ?O = "on_open 0 0 displaced_client"
  have q: "pendingSubscriptions displaced_client =
      [\<lparr>correlationId = ''z'', exchangeType = NSE_CM, token = ''1594'', feedMode = LTP\<rparr>,
       \<lparr>correlationId = ''x'', exchangeType = NSE_CM, token = ''3045'', feedMode = QUOTE\<rparr>,
       \<lparr>correlationId = ''batch-1-3045'', exchangeType = NSE_CM, token = ''3045'',
         feedMode = LTP\<rparr>]"
    and c: "socket_state displaced_client 0 = Some WS_CONNECTING"
    by (simp_all add: displaced_client_eq new_client_def socket_state_def)
  have o: "socket_state ?O 0 = Some WS_OPEN"
    by (simp add: socket_state_def displaced_client_opened(2))
  have k: "getSubscriptionKey (tick.exchangeType ltp_tick) (tick.token ltp_tick) =
             getSubscriptionKey NSE_CM ''3045''"
    by (simp add: ltp_tick_def base_tick_def)
  have m: "on_message (Binary ltp_frame) ?O = Inr (emit_tick ltp_tick ?O)"
    by (simp add: on_message_binary parseBinaryMessage_eq decode_ltp_frame)
  have e: "emitted (emit_tick ltp_tick ?O) =
      [(''connected'', NoArgs), (''tick'', TickArg ltp_tick), (''tick:x'', TickArg ltp_tick)]"
    using emit_tick_targeted [of ?O ltp_tick, unfolded k, OF displaced_client_opened(3)]
    by (simp add: displaced_client_opened(1))
  have tail: "run displaced_client [Socket_open 0 0, Socket_message 0 (Binary ltp_frame)] =
      Some (emit_tick ltp_tick ?O)"
    using c o m by simp
  have full: "run (new_client False) (?calls @ [Socket_open 0 0, Socket_message 0 (Binary ltp_frame)]) =
      Some (emit_tick ltp_tick ?O)"
    unfolding run_append displaced_client_run using tail by simp
  have l: "?calls @ [Socket_open 0 0, Socket_message 0 (Binary ltp_frame)] =
      [Call_subscribe ''z'' NSE_CM ''1594'' LTP True,
       Call_subscribe ''x'' NSE_CM ''3045'' QUOTE True,
       Call_subscribeMultiple ''batch'' [(NSE_CM, ''3045'')] LTP True,
       Socket_open 0 0,
       Socket_message 0 (Binary ltp_frame)]"
    by simp
  show ?thesis
    unfolding full [unfolded l] displaced_client_run by (simp add: q e)
qed

text \<open>
  C10, amended. For a call \<open>subscribeMultiple(batchId, symbols, mode)\<close> that passes the
  DEPTH_20 validation, every symbol is stored under the id \<open>batchId-exchangeType-token\<close>,
  never under \<open>batchId\<close>: on a client that is not connected the symbols are appended to
  the pending queue, in order, under that id; on a connected client the registry
  afterwards holds every symbol of the batch under that id. A binary frame that decodes
  to a tick of such a symbol is then emitted on \<open>tick\<close> and on
  \<open>tick:batchId-exchangeType-token\<close> and on no other channel: on the connected client at
  once, and on the queueing client after the open handler of a socket has flushed the
  queue, provided that no subscription for the same exchange and token in another feed
  mode was waiting in the queue at the call.
\<close>

theorem C10_subscribeMultiple_channels:
  assumes "\<not> (fm = DEPTH_20 \<and> ((\<exists>s \<in> set symbols. fst s \<noteq> NSE_CM) \<or> 50 < length symbols))"
  shows
   "(connectionState st \<noteq> CONNECTED \<longrightarrow>
       pendingSubscriptions (snd (subscribeMultiple cid symbols fm ok st)) =
         pendingSubscriptions st @ map (symbol_sub cid fm) symbols) \<and>
    (connectionState st = CONNECTED \<and> s \<in> set symbols \<longrightarrow>
       map_of (subscriptions (snd (subscribeMultiple cid symbols fm ok st)))
         (getSubscriptionKey (fst s) (snd s)) = Some (symbol_sub cid fm s)) \<and>
    (connectionState st = CONNECTED \<and> s \<in> set symbols \<and> decode_tick data = Inr t \<and>
     tick.exchangeType t = fst s \<and> tick.token t = snd s \<longrightarrow>
       (\<exists>st''. on_message (Binary data) (snd (subscribeMultiple cid symbols fm ok st)) = Inr st'' \<and>
          emitted st'' =
            emitted (snd (subscribeMultiple cid symbols fm ok st)) @
              [(''tick'', TickArg t),
               (''tick:'' @ cid @ ''-'' @ show_int (fst s) @ ''-'' @ snd s, TickArg t)])) \<and>
    (connectionState st \<noteq> CONNECTED \<and> s \<in> set symbols \<and>
     (\<forall>e \<in> set (pendingSubscriptions st).
        SubscriptionData.exchangeType e = fst s \<and> SubscriptionData.token e = snd s \<longrightarrow>
          feedMode e = fm) \<longrightarrow>
       map_of (subscriptions (on_open i now (snd (subscribeMultiple cid symbols fm ok st))))
         (getSubscriptionKey (fst s) (snd s)) = Some (symbol_sub cid fm s)) \<and>
    (connectionState st \<noteq> CONNECTED \<and> s \<in> set symbols \<and>
     (\<forall>e \<in> set (pendingSubscriptions st).
        SubscriptionData.exchangeType e = fst s \<and> SubscriptionData.token e = snd s \<longrightarrow>
          feedMode e = fm) \<and>
     decode_tick data = Inr t \<and> tick.exchangeType t = fst s \<and> tick.token t = snd s \<longrightarrow>
       (\<exists>st''. on_message (Binary data)
                 (on_open i now (snd (subscribeMultiple cid symbols fm ok st))) = Inr st'' \<and>
          emitted st'' =
            emitted (on_open i now (snd (subscribeMultiple cid symbols fm ok st))) @
              [(''tick'', TickArg t),
               (''tick:'' @ cid @ ''-'' @ show_int (fst s) @ ''-'' @ snd s, TickArg t)])) \<and>
    correlationId (symbol_sub cid fm s) = cid @ ''-'' @ show_int (fst s) @ ''-'' @ snd s \<and>
    ''tick:'' @ correlationId (symbol_sub cid fm s) \<noteq> ''tick:'' @ cid"
proof -
  let ?st' = "snd (subscribeMultiple cid symbols fm ok st)"
  let ?k = "getSubscriptionKey (fst s) (snd s)"
  have id: "correlationId (symbol_sub cid fm s) = cid @ ''-'' @ show_int (fst s) @ ''-'' @ snd s"
    by (simp add: symbol_sub_def symbol_id_def)
  have ne: "''tick:'' @ correlationId (symbol_sub cid fm s) \<noteq> ''tick:'' @ cid"
    using symbol_id_differs [of cid s] by (simp add: symbol_sub_def)
  have routed: "\<exists>st''. on_message (Binary data) x = Inr st'' \<and>
          emitted st'' =
            emitted x @
              [(''tick'', TickArg t),
               (''tick:'' @ cid @ ''-'' @ show_int (fst s) @ ''-'' @ snd s, TickArg t)]"
    if "map_of (subscriptions x) ?k = Some (symbol_sub cid fm s)" "decode_tick data = Inr t"
       "tick.exchangeType t = fst s" "tick.token t = snd s" for x
  proof -
    from that(1,3,4)
    have "map_of (subscriptions x) (getSubscriptionKey (tick.exchangeType t) (tick.token t)) =
            Some (symbol_sub cid fm s)"
      by simp
    from emit_tick_targeted [OF this] that(2) id show ?thesis
      by (simp add: on_message_binary parseBinaryMessage_eq)
  qed
  have flushed: "map_of (subscriptions (on_open i now ?st')) ?k = Some (symbol_sub cid fm s)"
    if "connectionState st \<noteq> CONNECTED" "s \<in> set symbols"
       "\<forall>e \<in> set (pendingSubscriptions st).
          SubscriptionData.exchangeType e = fst s \<and> SubscriptionData.token e = snd s \<longrightarrow>
            feedMode e = fm"
  proof -
    from that(3)
    have "\<forall>e \<in> set (pendingSubscriptions st). sub_key e = ?k \<longrightarrow> feedMode e = fm"
      by (simp add: sub_key_def getSubscriptionKey_inj)
    from subscribeMultiple_flushed_registry [OF that(1) assms that(2) this] show ?thesis .
  qed
  have recorded: "map_of (subscriptions ?st') ?k = Some (symbol_sub cid fm s)"
    if "connectionState st = CONNECTED" "s \<in> set symbols"
    using subscribeMultiple_connected_registry [OF that(1) assms that(2)] .
  have queued: "pendingSubscriptions ?st' = pendingSubscriptions st @ map (symbol_sub cid fm) symbols"
    if "connectionState st \<noteq> CONNECTED"
    using subscribeMultiple_queued [OF that assms] .
  show ?thesis
    using queued recorded routed [of ?st'] flushed routed [of "on_open i now ?st'"] id ne
    by blast
qed

lemma batch_client_opened:
  "emitted (on_open 0 0
     (snd (subscribeMultiple ''batch'' [(NSE_CM, ''3045'')] LTP True (new_client False)))) =
     [(''connected'', NoArgs)]"
  using show_int_1 show_int_small
  by (simp add: subscribeMultiple_def connect_def symbol_sub_def symbol_id_def
        on_open_def set_readyState_def log_def setupHeartbeat_def
        clearHeartbeat_def processPendingSubscriptions_def group_by_mode_def process_group_def
        save_and_group_def sendSubscriptionRequest_def ws_open_def emit_def Let_def new_client_def
        count_nse_cm_def getSubscriptionKey_def)

theorem C10_subscribeMultiple_channels_witness:
  "pendingSubscriptions
     (snd (subscribeMultiple ''batch'' [(NSE_CM, ''3045'')] LTP True (new_client False))) =
     [\<lparr>correlationId = ''batch-1-3045'', exchangeType = NSE_CM, token = ''3045'', feedMode = LTP\<rparr>] \<and>
   (\<exists>st''. on_message (Binary ltp_frame)
             (on_open 0 0
               (snd (subscribeMultiple ''batch'' [(NSE_CM, ''3045'')] LTP True (new_client False)))) =
             Inr st'' \<and>
           emitted st'' =
             [(''connected'', NoArgs), (''tick'', TickArg ltp_tick),
              (''tick:batch-1-3045'', TickArg ltp_tick)]) \<and>
   (\<exists>st''. on_message (Binary ltp_frame)
             (snd (subscribeMultiple ''batch'' [(NSE_CM, ''3045'')] LTP True connected_client)) =
             Inr st'' \<and>
           emitted st'' =
             [(''connected'', NoArgs), (''tick'', TickArg ltp_tick),
              (''tick:batch-1-3045'', TickArg ltp_tick)])"
proof -
  have acc: "\<not> (LTP = DEPTH_20 \<and>
               ((\<exists>s \<in> set [(NSE_CM, ''3045'')]. fst s \<noteq> NSE_CM) \<or> 50 < length [(NSE_CM, ''3045'')]))"
    by simp
  have a: "connectionState (new_client False) \<noteq> CONNECTED" "pendingSubscriptions (new_client False) = []"
    by (simp_all add: new_client_def)
  have b: "connectionState connected_client = CONNECTED" by (simp add: connected_client_eq)
  have c: "tick.exchangeType ltp_tick = fst (NSE_CM, ''3045'')"
          "tick.token ltp_tick = snd (NSE_CM, ''3045'')"
    by (simp_all add: ltp_tick_def base_tick_def)
  have d: "emitted (snd (subscribeMultiple ''batch'' [(NSE_CM, ''3045'')] LTP True connected_client)) =
             [(''connected'', NoArgs)]"
    by (simp add: subscribeMultiple_def save_symbols_def sendSubscriptionRequest_def ws_open_def
          connected_client_eq log_def Let_def)
  have e: "symbol_sub ''batch'' LTP (NSE_CM, ''3045'') =
             \<lparr>correlationId = ''batch-1-3045'', exchangeType = NSE_CM, token = ''3045'', feedMode = LTP\<rparr>"
    using show_int_1 by (simp add: symbol_sub_def symbol_id_def)
  have m: "(NSE_CM, ''3045'') \<in> set [(NSE_CM, ''3045'')]" by simp
  show ?thesis
    using C10_subscribeMultiple_channels [OF acc, of "new_client False" "''batch''" True
            "(NSE_CM, ''3045'')" ltp_frame ltp_tick 0 0]
          C10_subscribeMultiple_channels [OF acc, of connected_client "''batch''" True
            "(NSE_CM, ''3045'')" ltp_frame ltp_tick 0 0]
          a b c d e m decode_ltp_frame show_int_1 batch_client_opened
    by simp
qed

end
